theory Spec2Isabelle
  imports Main "HOL-Library.Sublist" "HOL-Library.Multiset"
begin

section \<open>JavaScript strings and the helpers the serializer uses\<close>

text \<open>
  A JavaScript string is modelled as a \<open>string\<close>, one \<open>char\<close> per code unit (so the
  model covers code units below 256). \<open>is_ws\<close> is the white space of \<open>String.prototype.trim\<close>
  and of the regular expression class \<open>\s\<close> in that range: TAB, LF, VT, FF, CR, SPACE and
  NBSP.
\<close>

definition is_ws :: "char \<Rightarrow> bool" where
  "is_ws c = ((of_char c :: nat) \<in> {9, 10, 11, 12, 13, 32, 160})"

definition is_alnum :: "char \<Rightarrow> bool" where
  "is_alnum c = (let n = (of_char c :: nat) in
     (48 \<le> n \<and> n \<le> 57) \<or> (65 \<le> n \<and> n \<le> 90) \<or> (97 \<le> n \<and> n \<le> 122))"

definition is_hex :: "char \<Rightarrow> bool" where
  "is_hex c = (let n = (of_char c :: nat) in
     (48 \<le> n \<and> n \<le> 57) \<or> (65 \<le> n \<and> n \<le> 70) \<or> (97 \<le> n \<and> n \<le> 102))"

definition toLowerCase :: "string \<Rightarrow> string" where
  \<comment> \<open>\<open>A\<close> to \<open>Z\<close>, and the capital letters U+00C0 to U+00DE (U+00D7 is the times sign)\<close>
  "toLowerCase s = map (\<lambda>c. let n = (of_char c :: nat) in
     if (65 \<le> n \<and> n \<le> 90) \<or> (192 \<le> n \<and> n \<le> 222 \<and> n \<noteq> 215)
     then char_of (n + 32) else c) s"

definition trim :: "string \<Rightarrow> string" where
  "trim s = rev (dropWhile is_ws (rev (dropWhile is_ws s)))"

fun join :: "string \<Rightarrow> string list \<Rightarrow> string" where
  "join sep [] = []"
| "join sep [x] = x"
| "join sep (x # y # ys) = x @ sep @ join sep (y # ys)"

text \<open>
  \<open>s.split(/\s+/)\<close>: the pieces between maximal runs of white space. A string that
  starts or ends with white space yields an empty first or last piece, and the empty
  string yields one empty piece. The first argument is the piece read so far, reversed.
\<close>

function split_ws :: "string \<Rightarrow> string \<Rightarrow> string list" where
  "split_ws cur [] = [rev cur]"
| "split_ws cur (c # cs) =
     (if is_ws c then rev cur # split_ws [] (dropWhile is_ws cs)
      else split_ws (c # cur) cs)"
  by pat_completeness auto
termination
  by (relation "measure (\<lambda>(cur, s). length s)")
     (auto simp: le_imp_less_Suc length_dropWhile_le)

text \<open>\<open>s.replace(/c/g, r)\<close> for a single character \<open>c\<close> and a replacement without \<open>$\<close>.\<close>

definition replaceAll_char :: "char \<Rightarrow> string \<Rightarrow> string \<Rightarrow> string" where
  "replaceAll_char c r s = concat (map (\<lambda>x. if x = c then r else [x]) s)"

definition escapeHtml :: "string \<Rightarrow> string" where
  "escapeHtml text =
     replaceAll_char (CHR ''>'') ''&gt;''
       (replaceAll_char (CHR ''<'') ''&lt;''
         (replaceAll_char (CHR ''&'') ''&amp;'' text))"

definition escapeAttr :: "string \<Rightarrow> string" where
  \<open>escapeAttr v =
     replaceAll_char (CHR ''>'') ''&gt;''
       (replaceAll_char (CHR ''<'') ''&lt;''
         (replaceAll_char (CHR 0x22) ''&quot;''
           (replaceAll_char (CHR ''&'') ''&amp;'' v)))\<close>

section \<open>Constants of the serializer\<close>

definition SKIP_TAGS :: "string list" where
  "SKIP_TAGS = [''SCRIPT'', ''STYLE'', ''NOSCRIPT'', ''TEMPLATE'']"

definition VOID_TAGS :: "string list" where
  "VOID_TAGS = [''AREA'', ''BASE'', ''BR'', ''COL'', ''EMBED'', ''HR'',
     ''IMG'', ''INPUT'', ''LINK'', ''META'', ''SOURCE'', ''TRACK'', ''WBR'']"

definition SVG_NOISE_ATTRS :: "string list" where
  "SVG_NOISE_ATTRS = [''d'', ''points'']"

definition ATTR_ORDER :: "(string \<times> int) list" where
  "ATTR_ORDER =
    [(''id'', 0), (''type'', 1), (''name'', 2), (''role'', 3),
     (''href'', 10), (''src'', 11), (''action'', 12), (''method'', 13), (''for'', 14),
     (''value'', 20), (''placeholder'', 21), (''required'', 22), (''disabled'', 23),
     (''checked'', 24), (''selected'', 25), (''multiple'', 26), (''readonly'', 27),
     (''class'', 40), (''alt'', 41), (''title'', 42), (''target'', 43), (''rel'', 44)]"

text \<open>
  \<open>ATTR_ORDER\<close> is an object literal, so \<open>name in ATTR_ORDER\<close> also holds for the
  property names it inherits from \<open>Object.prototype\<close>; the value read there is a function
  or an object, not a number.
\<close>

definition OBJECT_PROTOTYPE_KEYS :: "string list" where
  "OBJECT_PROTOTYPE_KEYS =
    [''constructor'', ''__proto__'', ''hasOwnProperty'', ''isPrototypeOf'',
     ''propertyIsEnumerable'', ''toLocaleString'', ''toString'', ''valueOf'',
     ''__defineGetter__'', ''__defineSetter__'', ''__lookupGetter__'', ''__lookupSetter__'']"

text \<open>The three \<open>GENERATED_CLASS_PATTERNS\<close>, each as the test of its regular expression.\<close>

definition generated_prefix :: "string \<Rightarrow> bool" where
  \<comment> \<open>\<open>/^(css|sc|emotion|styled|jsx)-/\<close>\<close>
  "generated_prefix cls =
     list_ex (\<lambda>p. prefix (p @ ''-'') cls) [''css'', ''sc'', ''emotion'', ''styled'', ''jsx'']"

definition generated_module_hash :: "string \<Rightarrow> bool" where
  \<comment> \<open>\<open>/^_[a-zA-Z0-9]{5,}$/\<close>\<close>
  "generated_module_hash cls =
     (case cls of [] \<Rightarrow> False
      | c # rest \<Rightarrow> c = CHR ''_'' \<and> 5 \<le> length rest \<and> list_all is_alnum rest)"

fun hex_run :: "nat \<Rightarrow> string \<Rightarrow> bool" where
  "hex_run n [] = (8 \<le> n)"
| "hex_run n (c # cs) = (8 \<le> n \<or> (if is_hex c then hex_run (Suc n) cs else hex_run 0 cs))"

definition generated_hex :: "string \<Rightarrow> bool" where
  \<comment> \<open>\<open>/[a-f0-9]{8,}/i\<close>\<close>
  "generated_hex cls = hex_run 0 cls"

definition GENERATED_CLASS_PATTERNS :: "(string \<Rightarrow> bool) list" where
  "GENERATED_CLASS_PATTERNS = [generated_prefix, generated_module_hash, generated_hex]"

section \<open>Helper functions of the serializer\<close>

definition shouldSkipAttribute :: "string \<Rightarrow> bool" where
  "shouldSkipAttribute name =
     (if prefix ''on'' name then True
      else if name = ''style'' then True
      else if prefix ''data-'' name then True
      else False)"

text \<open>
  \<open>attrOrder\<close> returns a number, except for a name inherited from \<open>Object.prototype\<close>,
  where it returns that property's value; \<open>None\<close> stands for such a value, whose
  difference with anything is \<open>NaN\<close>.
\<close>

definition attrOrder :: "string \<Rightarrow> int option" where
  "attrOrder name =
     (case map_of ATTR_ORDER name of
        Some n \<Rightarrow> Some n
      | None \<Rightarrow>
          if name \<in> set OBJECT_PROTOTYPE_KEYS then None
          else if prefix ''aria-'' name then Some 5
          else Some 30)"

definition filterClasses :: "string \<Rightarrow> string" where
  "filterClasses classStr =
     join '' '' (filter (\<lambda>cls. cls \<noteq> [] \<and> \<not> list_ex (\<lambda>p. p cls) GENERATED_CLASS_PATTERNS)
                        (split_ws [] classStr))"

section \<open>The DOM\<close>

text \<open>
  An element carries its tag name, its attributes in source order, the \<open>ref\<close> of the
  \<open>_ariaRef\<close> property the automation engine attached (\<open>None\<close> when there is none), its
  child nodes and its open shadow root (\<open>None\<close> when it has none or a closed one).
\<close>

datatype element =
  Element (tagName: string) (attributes: "(string \<times> string) list")
          (ariaRef: "string option") (childNodes: "node list")
          (shadowRoot: "node list option")
and node =
    TextNode string
  | ElementNode element
  | CommentNode string
  | OtherNode

section \<open>The builder\<close>

record builder =
  p_html :: "string list"
  p_iframeRefs :: "string list"

record extraction =
  html :: string
  iframeRefs :: "string list"

definition push :: "string \<Rightarrow> builder \<Rightarrow> builder" where
  "push s b = b\<lparr>p_html := p_html b @ [s]\<rparr>"

definition getAttribute :: "(string \<times> string) list \<Rightarrow> string \<Rightarrow> string option" where
  "getAttribute attrs name = map_of attrs name"

definition shouldSkipElement :: "string \<Rightarrow> (string \<times> string) list \<Rightarrow> bool" where
  "shouldSkipElement tag attrs =
     (if tag \<in> set SKIP_TAGS then True
      else if tag = ''LINK'' \<and> getAttribute attrs ''rel'' = Some ''stylesheet'' then True
      else False)"

definition isSvgNoise :: "string \<Rightarrow> string \<Rightarrow> bool" where
  "isSvgNoise tag attrName =
     (attrName \<in> set SVG_NOISE_ATTRS \<and> (tag = ''PATH'' \<or> tag = ''POLYGON''))"

text \<open>The first loop of \<open>_serializeAttributes\<close>: the attributes that are kept, in source order.\<close>

fun collectAttrs :: "string \<Rightarrow> (string \<times> string) list \<Rightarrow> (string \<times> string) list" where
  "collectAttrs tag [] = []"
| "collectAttrs tag ((name, v) # rest) =
     (if shouldSkipAttribute name then collectAttrs tag rest
      else if name = ''ref'' then collectAttrs tag rest
      else if isSvgNoise tag name then (name, ''...'') # collectAttrs tag rest
      else if name = ''class'' then
        (let filtered = filterClasses v in
         if filtered \<noteq> [] then (''class'', filtered) # collectAttrs tag rest
         else collectAttrs tag rest)
      else (name, v) # collectAttrs tag rest)"

text \<open>
  \<open>attrs.sort((a, b) => attrOrder(a[0]) - attrOrder(b[0]))\<close>. The sort is stable; \<open>b\<close> moves
  before \<open>a\<close> only when the difference is positive, and a \<open>NaN\<close> difference counts as zero.
  When some difference is \<open>NaN\<close> the comparator is not consistent and ECMAScript leaves the
  resulting order to the implementation: an engine may give another order than the stable
  insertion sort of the model, and the theorems about order exclude such names.
\<close>

definition cmp_gt :: "string \<times> string \<Rightarrow> string \<times> string \<Rightarrow> bool" where
  "cmp_gt a b =
     (case (attrOrder (fst a), attrOrder (fst b)) of
        (Some x, Some y) \<Rightarrow> x - y > 0
      | _ \<Rightarrow> False)"

fun insort_attr :: "string \<times> string \<Rightarrow> (string \<times> string) list \<Rightarrow> (string \<times> string) list" where
  "insort_attr a [] = [a]"
| "insort_attr a (b # bs) = (if cmp_gt a b then b # insort_attr a bs else a # b # bs)"

definition sortAttrs :: "(string \<times> string) list \<Rightarrow> (string \<times> string) list" where
  "sortAttrs attrs = foldr insort_attr attrs []"

definition attrText :: "string \<times> string \<Rightarrow> string" where
  \<open>attrText a = '' '' @ fst a @ ''="'' @ escapeAttr (snd a) @ ''"''\<close>

definition serializeAttributes :: "string \<Rightarrow> (string \<times> string) list \<Rightarrow> builder \<Rightarrow> builder" where
  "serializeAttributes tag attrs b =
     fold (\<lambda>a. push (attrText a)) (sortAttrs (collectAttrs tag attrs)) b"

definition serializeRef :: "string option \<Rightarrow> builder \<Rightarrow> builder" where
  \<open>serializeRef aref b =
     (case aref of
        Some ref \<Rightarrow> if ref \<noteq> [] then push ('' ref="'' @ ref @ ''"'') b else b
      | None \<Rightarrow> b)\<close>

definition collectIframeRef :: "string \<Rightarrow> string option \<Rightarrow> builder \<Rightarrow> builder" where
  "collectIframeRef tag aref b =
     (if tag = ''IFRAME'' then
        (case aref of
           Some ref \<Rightarrow> if ref \<noteq> [] then b\<lparr>p_iframeRefs := p_iframeRefs b @ [ref]\<rparr> else b
         | None \<Rightarrow> b)
      else b)"

fun serializeElement :: "element \<Rightarrow> builder \<Rightarrow> builder"
and serializeChildren :: "node list \<Rightarrow> builder \<Rightarrow> builder" where
  "serializeElement (Element tag attrs aref kids shadow) b =
     (if shouldSkipElement tag attrs then b
      else
        let tagLower = toLowerCase tag;
            b1 = collectIframeRef tag aref b;
            b2 = push (''<'' @ tagLower) b1;
            b3 = serializeAttributes tag attrs b2;
            b4 = serializeRef aref b3;
            b5 = push ''>'' b4
        in if tag \<in> set VOID_TAGS then b5
           else
             let b6 = serializeChildren kids b5;
                 b7 = (case shadow of
                         None \<Rightarrow> b6
                       | Some sk \<Rightarrow>
                           push ''<!-- /shadow-root -->''
                             (serializeChildren sk (push ''<!-- shadow-root -->'' b6)))
             in push (''</'' @ tagLower @ ''>'') b7)"
| "serializeChildren [] b = b"
| "serializeChildren (TextNode text # rest) b =
     serializeChildren rest (if trim text \<noteq> [] then push (escapeHtml text) b else b)"
| "serializeChildren (ElementNode el # rest) b =
     serializeChildren rest (serializeElement el b)"
| "serializeChildren (CommentNode c # rest) b = serializeChildren rest b"
| "serializeChildren (OtherNode # rest) b = serializeChildren rest b"

text \<open>
  \<open>build\<close> resets both buffers, walks the root and joins the pieces. It returns the
  result together with the builder as the walk left it.
\<close>

definition build :: "element \<Rightarrow> builder \<Rightarrow> extraction \<times> builder" where
  "build root b =
     (let b0 = b\<lparr>p_html := [], p_iframeRefs := []\<rparr>;
          b1 = serializeElement root b0
      in (\<lparr>html = concat (p_html b1), iframeRefs = p_iframeRefs b1\<rparr>, b1))"

definition new_AIDomBuilder :: builder where
  "new_AIDomBuilder = \<lparr>p_html = [], p_iframeRefs = []\<rparr>"

text \<open>
  The text and the frame refs that one walk appends to the buffers, as functions of the
  tree alone; \<open>serialize_text\<close> and \<open>serialize_refs\<close> below show that the builder
  computes them.
\<close>

definition refText :: "string option \<Rightarrow> string" where
  \<open>refText aref =
     (case aref of
        Some ref \<Rightarrow> if ref \<noteq> [] then '' ref="'' @ ref @ ''"'' else []
      | None \<Rightarrow> [])\<close>

definition sortedAttrs :: "element \<Rightarrow> (string \<times> string) list" where
  "sortedAttrs el = sortAttrs (collectAttrs (tagName el) (attributes el))"

definition openTagText :: "element \<Rightarrow> string" where
  "openTagText el =
     ''<'' @ toLowerCase (tagName el) @ concat (map attrText (sortedAttrs el))
       @ refText (ariaRef el) @ ''>''"

fun elementText :: "element \<Rightarrow> string"
and childrenText :: "node list \<Rightarrow> string" where
  "elementText (Element tag attrs aref kids shadow) =
     (if shouldSkipElement tag attrs then []
      else openTagText (Element tag attrs aref kids shadow) @
        (if tag \<in> set VOID_TAGS then []
         else childrenText kids @
              (case shadow of
                 None \<Rightarrow> []
               | Some sk \<Rightarrow> ''<!-- shadow-root -->'' @ childrenText sk @ ''<!-- /shadow-root -->'')
              @ ''</'' @ toLowerCase tag @ ''>''))"
| "childrenText [] = []"
| "childrenText (TextNode text # rest) =
     (if trim text \<noteq> [] then escapeHtml text else []) @ childrenText rest"
| "childrenText (ElementNode el # rest) = elementText el @ childrenText rest"
| "childrenText (CommentNode c # rest) = childrenText rest"
| "childrenText (OtherNode # rest) = childrenText rest"

definition ownIframeRef :: "string \<Rightarrow> string option \<Rightarrow> string list" where
  "ownIframeRef tag aref =
     (if tag = ''IFRAME'' then
        (case aref of Some ref \<Rightarrow> if ref \<noteq> [] then [ref] else [] | None \<Rightarrow> [])
      else [])"

fun elementRefs :: "element \<Rightarrow> string list"
and childrenRefs :: "node list \<Rightarrow> string list" where
  "elementRefs (Element tag attrs aref kids shadow) =
     (if shouldSkipElement tag attrs then []
      else ownIframeRef tag aref @
        (if tag \<in> set VOID_TAGS then []
         else childrenRefs kids @
              (case shadow of None \<Rightarrow> [] | Some sk \<Rightarrow> childrenRefs sk)))"
| "childrenRefs [] = []"
| "childrenRefs (TextNode text # rest) = childrenRefs rest"
| "childrenRefs (ElementNode el # rest) = elementRefs el @ childrenRefs rest"
| "childrenRefs (CommentNode c # rest) = childrenRefs rest"
| "childrenRefs (OtherNode # rest) = childrenRefs rest"

section \<open>String replacement\<close>

text \<open>
  \<open>s.replace(pattern, replacement)\<close> with a string pattern replaces the first occurrence
  only, and expands in the replacement \<open>$$\<close> to a dollar sign, \<open>$&\<close> to the matched text,
  \<open>$`\<close> to the text in front of the match and \<open>$'\<close> to the text after it. There are no
  capture groups, so every other \<open>$\<close> stays as it is.
\<close>

fun find_first :: "string \<Rightarrow> string \<Rightarrow> (string \<times> string) option" where
  "find_first pat [] = (if pat = [] then Some ([], []) else None)"
| "find_first pat (c # cs) =
     (if prefix pat (c # cs) then Some ([], drop (length pat) (c # cs))
      else map_option (\<lambda>(front, back). (c # front, back)) (find_first pat cs))"

fun getSubstitution :: "string \<Rightarrow> string \<Rightarrow> string \<Rightarrow> string \<Rightarrow> string" where
  "getSubstitution matched front back [] = []"
| "getSubstitution matched front back [c] = [c]"
| "getSubstitution matched front back (c # d # rest) =
     (if c = CHR ''$'' \<and> d = CHR ''$'' then CHR ''$'' # getSubstitution matched front back rest
      else if c = CHR ''$'' \<and> d = CHR ''&'' then matched @ getSubstitution matched front back rest
      else if c = CHR ''$'' \<and> d = CHR 0x60 then front @ getSubstitution matched front back rest
      else if c = CHR ''$'' \<and> d = CHR 0x27 then back @ getSubstitution matched front back rest
      else c # getSubstitution matched front back (d # rest))"

definition js_replace :: "string \<Rightarrow> string \<Rightarrow> string \<Rightarrow> string" where
  "js_replace s pat replacement =
     (case find_first pat s of
        None \<Rightarrow> s
      | Some (front, back) \<Rightarrow> front @ getSubstitution pat front back replacement @ back)"

definition str_includes :: "string \<Rightarrow> string \<Rightarrow> bool" where
  "str_includes s pat = (find_first pat s \<noteq> None)"

section \<open>Frames and the stitcher\<close>

text \<open>
  A frame has the \<open>body\<close> of its document (\<open>None\<close> when the document has none, where
  the injected function fails on \<open>el.tagName\<close>) and the content frames that its
  \<open>aria-ref\<close> locators resolve, keyed by ref. A ref without an entry is a frame that cannot
  be entered: navigated away, detached or cross-origin.
\<close>

datatype frame = Frame (body: "element option") (contentFrames: "(string \<times> frame) list")

datatype page = Page (mainFrame: frame) | PageGone

datatype error = TargetClosed | EvaluateError | FrameUnavailable | FsError

definition AIDomBuilderInjection :: "element option \<Rightarrow> error + extraction" where
  "AIDomBuilderInjection document_body =
     (case document_body of
        None \<Rightarrow> Inl EvaluateError
      | Some root \<Rightarrow> Inr (fst (build root new_AIDomBuilder)))"

definition evaluate :: "frame \<Rightarrow> error + extraction" where
  "evaluate fr = AIDomBuilderInjection (body fr)"

definition contentFrame :: "frame \<Rightarrow> string \<Rightarrow> error + frame" where
  "contentFrame fr ref =
     (case map_of (contentFrames fr) ref of
        None \<Rightarrow> Inl FrameUnavailable
      | Some child \<Rightarrow> Inr child)"

definition iframePattern :: "string \<Rightarrow> string" where
  \<open>iframePattern ref = ''<iframe ref="'' @ ref @ ''"></iframe>''\<close>

definition iframeReplacement :: "string \<Rightarrow> string \<Rightarrow> string" where
  \<open>iframeReplacement ref childHtml =
     ''<iframe ref="'' @ ref @ ''">\<newline><!-- BEGIN IFRAME '' @ ref @ '' -->\<newline>'' @ childHtml
       @ ''\<newline><!-- END IFRAME '' @ ref @ '' -->\<newline></iframe>''\<close>

text \<open>
  The inner loop over \<open>child.iframeRefs\<close>. It runs inside the \<open>try\<close> block of the outer
  loop and assigns to \<open>html\<close> as it goes, so it returns the text reached together with the
  error that ended it, if any.
\<close>

fun stitchNested :: "frame \<Rightarrow> string list \<Rightarrow> string \<Rightarrow> error option \<times> string" where
  "stitchNested fr [] cur = (None, cur)"
| "stitchNested fr (childRef # rest) cur =
     (case contentFrame fr childRef of
        Inl e \<Rightarrow> (Some e, cur)
      | Inr nestedFrame \<Rightarrow>
          (case evaluate nestedFrame of
             Inl e \<Rightarrow> (Some e, cur)
           | Inr nested \<Rightarrow>
               stitchNested fr rest
                 (js_replace cur (iframePattern childRef)
                    (iframeReplacement childRef (html nested)))))"

text \<open>The \<open>try\<close> block of the outer loop, for one ref of the main frame.\<close>

definition tryFrame :: "frame \<Rightarrow> string \<Rightarrow> string \<Rightarrow> error option \<times> string" where
  "tryFrame main ref cur =
     (case contentFrame main ref of
        Inl e \<Rightarrow> (Some e, cur)
      | Inr fr \<Rightarrow>
          (case evaluate fr of
             Inl e \<Rightarrow> (Some e, cur)
           | Inr child \<Rightarrow>
               stitchNested fr (iframeRefs child)
                 (js_replace cur (iframePattern ref) (iframeReplacement ref (html child)))))"

text \<open>The outer loop; its empty \<open>catch\<close> drops the error and keeps the text reached.\<close>

fun stitchLoop :: "frame \<Rightarrow> string list \<Rightarrow> string \<Rightarrow> string" where
  "stitchLoop main [] cur = cur"
| "stitchLoop main (ref # rest) cur = stitchLoop main rest (snd (tryFrame main ref cur))"

definition extractFullDom :: "page \<Rightarrow> error + string" where
  "extractFullDom pg =
     (case pg of
        PageGone \<Rightarrow> Inl TargetClosed
      | Page main \<Rightarrow>
          (case evaluate main of
             Inl e \<Rightarrow> Inl e
           | Inr m \<Rightarrow> Inr (stitchLoop main (iframeRefs m) (html m))))"

section \<open>The session state\<close>

text \<open>
  Functions of libraries outside the repository are parameters: \<open>html_beautify\<close> of
  js-beautify (with the fixed \<open>BEAUTIFY_OPTIONS\<close>), \<open>createPatch\<close> of the diff library (file
  name, old text, new text; three lines of context) and \<open>path_join\<close> of Node.
\<close>

record library =
  html_beautify :: "string \<Rightarrow> string"
  createPatch :: "string \<Rightarrow> string \<Rightarrow> string \<Rightarrow> string"
  path_join :: "string list \<Rightarrow> string"

definition prettyPrintHtml :: "library \<Rightarrow> string \<Rightarrow> string" where
  "prettyPrintHtml lib raw = html_beautify lib raw"

record mcp_context =
  hasExplicitRoots :: bool
  firstRootPath :: string

text \<open>Of \<open>toolArgs\<close> only \<open>ref\<close> and a \<open>value\<close> of type string are read.\<close>

record tool_args =
  arg_ref :: "string option"
  arg_value :: "string option"

text \<open>
  What the session touches outside itself: the directories it makes, the files it writes
  and the call of \<open>extractFullDom\<close>. An operation is recorded when it is attempted, also
  when it fails.
\<close>

datatype effect = Mkdir string | WriteFile string string | ExtractFullDom

text \<open>
  One call of \<open>update\<close>: its arguments, the two environment variables as the process
  sees them at that moment, and which file system operations fail.
\<close>

record update_call =
  page :: page
  ctx :: mcp_context
  toolName :: string
  toolArgs :: tool_args
  ariaSnapshot :: string
  env_instanceId :: "string option"
  env_workspace :: "string option"
  fs_fails :: "effect \<Rightarrow> bool"

record dom_state =
  previousDom :: "string option"
  diffCounter :: nat
  stateDir :: "string option"

definition new_DomState :: dom_state where
  "new_DomState = \<lparr>previousDom = None, diffCounter = 0, stateDir = None\<rparr>"

record dom_state_result =
  domPath :: string
  ariaPath :: string
  diffPath :: "string option"
  diff :: "string option"

datatype 'a outcome = Returned 'a | Threw error

text \<open>An absent string reads as the empty one where only its truth value is tested.\<close>

definition str_of :: "string option \<Rightarrow> string" where
  "str_of x = (case x of None \<Rightarrow> [] | Some v \<Rightarrow> v)"

definition truthy :: "string option \<Rightarrow> bool" where
  "truthy x = (str_of x \<noteq> [])"

fun string_of_nat :: "nat \<Rightarrow> string" where
  "string_of_nat n =
     (if n < 10 then [char_of (48 + n)]
      else string_of_nat (n div 10) @ [char_of (48 + n mod 10)])"

definition padStart3 :: "string \<Rightarrow> string" where
  "padStart3 s = replicate (3 - length s) (CHR ''0'') @ s"

definition sanitize :: "string \<Rightarrow> string" where
  \<comment> \<open>\<open>.replace(/[^a-zA-Z0-9-]/g, '-')\<close>\<close>
  "sanitize s = map (\<lambda>c. if is_alnum c \<or> c = CHR ''-'' then c else CHR ''-'') s"

fun collapse_dashes :: "string \<Rightarrow> string" where
  \<comment> \<open>\<open>.replace(/-+/g, '-')\<close>\<close>
  "collapse_dashes (c # d # rest) =
     (if c = CHR ''-'' \<and> d = CHR ''-'' then collapse_dashes (d # rest)
      else c # collapse_dashes (d # rest))"
| "collapse_dashes s = s"

definition formatDiffName :: "nat \<Rightarrow> string \<Rightarrow> tool_args \<Rightarrow> string" where
  "formatDiffName counter tool args =
     (let num = padStart3 (string_of_nat counter);
          action = js_replace tool ''browser_'' [];
          ref = str_of (arg_ref args);
          val = take 20 (str_of (arg_value args));
          suffix = collapse_dashes (sanitize (join ''-'' (filter (\<lambda>x. x \<noteq> []) [ref, val])))
      in num @ ''-'' @ action @ (if suffix \<noteq> [] then ''-'' @ suffix else []) @ ''.diff'')"

definition mkdirs ::
  "library \<Rightarrow> update_call \<Rightarrow> dom_state \<Rightarrow> string \<Rightarrow> string option outcome \<times> dom_state \<times> effect list"
where
  "mkdirs lib c s dir =
     (let s1 = s\<lparr>stateDir := Some dir\<rparr>;
          diffs = path_join lib [dir, ''diffs'']
      in if fs_fails c (Mkdir dir) then (Threw FsError, s1, [Mkdir dir])
         else if fs_fails c (Mkdir diffs) then (Threw FsError, s1, [Mkdir dir, Mkdir diffs])
         else (Returned (Some dir), s1, [Mkdir dir, Mkdir diffs]))"

definition ensureStateDir ::
  "library \<Rightarrow> update_call \<Rightarrow> dom_state \<Rightarrow> string option outcome \<times> dom_state \<times> effect list"
where
  "ensureStateDir lib c s =
     (if truthy (stateDir s) then (Returned (stateDir s), s, [])
      else
        let instanceId = env_instanceId c;
            muxWorkspace = env_workspace c
        in if truthy instanceId \<and> truthy muxWorkspace then
             mkdirs lib c s
               (path_join lib
                  [str_of muxWorkspace, ''.playwright-mcp'', ''browser-state'', str_of instanceId])
           else if hasExplicitRoots (ctx c) then
             mkdirs lib c s
               (path_join lib [firstRootPath (ctx c), ''.playwright-mcp'', ''browser-state''])
           else (Returned None, s, []))"

text \<open>
  Steps 4 to 7 of \<open>update\<close>, once the directory and the text are there. The counter is
  incremented before the diff file is written, and \<open>previousDom\<close> is set last.
\<close>

definition writeState ::
  "library \<Rightarrow> update_call \<Rightarrow> dom_state \<Rightarrow> string \<Rightarrow> string \<Rightarrow>
     dom_state_result option outcome \<times> dom_state \<times> effect list"
where
  "writeState lib c s dir domStr =
     (let diffStr =
            (case previousDom s of
               None \<Rightarrow> None
             | Some prev \<Rightarrow>
                 let patch = createPatch lib ''dom.html'' prev domStr
                 in if str_includes patch ''@@'' then Some patch else None);
          dPath = path_join lib [dir, ''dom.html''];
          aPath = path_join lib [dir, ''accessibility-tree.yaml''];
          w1 = WriteFile dPath domStr;
          w2 = WriteFile aPath (ariaSnapshot c)
      in if fs_fails c w1 then (Threw FsError, s, [w1])
         else if fs_fails c w2 then (Threw FsError, s, [w1, w2])
         else if truthy diffStr then
           (let s1 = s\<lparr>diffCounter := diffCounter s + 1\<rparr>;
                diffName = formatDiffName (diffCounter s1) (toolName c) (toolArgs c);
                fPath = path_join lib [dir, ''diffs'', diffName];
                w3 = WriteFile fPath (str_of diffStr)
            in if fs_fails c w3 then (Threw FsError, s1, [w1, w2, w3])
               else (Returned (Some \<lparr>domPath = dPath, ariaPath = aPath,
                                      diffPath = Some fPath, diff = diffStr\<rparr>),
                     s1\<lparr>previousDom := Some domStr\<rparr>, [w1, w2, w3]))
         else (Returned (Some \<lparr>domPath = dPath, ariaPath = aPath,
                                diffPath = None, diff = diffStr\<rparr>),
               s\<lparr>previousDom := Some domStr\<rparr>, [w1, w2]))"

definition update ::
  "library \<Rightarrow> update_call \<Rightarrow> dom_state \<Rightarrow>
     dom_state_result option outcome \<times> dom_state \<times> effect list"
where
  "update lib c s =
     (case ensureStateDir lib c s of
        (Threw e, s1, t1) \<Rightarrow> (Threw e, s1, t1)
      | (Returned dirOpt, s1, t1) \<Rightarrow>
          if \<not> truthy dirOpt then (Returned None, s1, t1)
          else
            (case extractFullDom (page c) of
               Inl e \<Rightarrow> (Returned None, s1, t1 @ [ExtractFullDom])
             | Inr rawHtml \<Rightarrow>
                 (case writeState lib c s1 (str_of dirOpt) (prettyPrintHtml lib rawHtml) of
                    (out, s2, t2) \<Rightarrow> (out, s2, t1 @ [ExtractFullDom] @ t2))))"

text \<open>A session: successive calls of \<open>update\<close>, each on the state the one before left.\<close>

record step =
  state_before :: dom_state
  call :: update_call
  outcome :: "dom_state_result option outcome"
  state_after :: dom_state
  effects :: "effect list"

fun run_updates :: "library \<Rightarrow> dom_state \<Rightarrow> update_call list \<Rightarrow> step list" where
  "run_updates lib s [] = []"
| "run_updates lib s (c # cs) =
     (case update lib c s of
        (out, s1, t) \<Rightarrow>
          \<lparr>state_before = s, call = c, outcome = out, state_after = s1, effects = t\<rparr>
            # run_updates lib s1 cs)"

section \<open>Notions used in the statements\<close>

text \<open>
  The class tokens as the specification describes them: the maximal runs of characters
  that are not white space. A token has the generated shape when one of the three
  patterns matches it.
\<close>

definition generated_shape :: "string \<Rightarrow> bool" where
  "generated_shape cls = (generated_prefix cls \<or> generated_module_hash cls \<or> generated_hex cls)"

text \<open>
  The generated shapes in words of their own, not through the tests of the code: a token
  that starts with one of the five framework prefixes; a token that is an underscore
  followed by five or more letters and digits and nothing else; a token that holds, at
  some position, eight hexadecimal digits in a row. The letters and digits are listed
  character by character.
\<close>

definition hex_chars :: string where
  "hex_chars = ''0123456789abcdefABCDEF''"

definition alnum_chars :: string where
  "alnum_chars = ''abcdefghijklmnopqrstuvwxyzABCDEFGHIJKLMNOPQRSTUVWXYZ0123456789''"

definition spec_framework_prefixed :: "string \<Rightarrow> bool" where
  "spec_framework_prefixed t =
     list_ex (\<lambda>p. take (length p) t = p) [''css-'', ''sc-'', ''emotion-'', ''styled-'', ''jsx-'']"

definition spec_module_hash :: "string \<Rightarrow> bool" where
  "spec_module_hash t =
     (6 \<le> length t \<and> take 1 t = ''_'' \<and> list_all (\<lambda>c. c \<in> set alnum_chars) (drop 1 t))"

definition spec_long_hex_run :: "string \<Rightarrow> bool" where
  "spec_long_hex_run t =
     (\<exists>i. i + 8 \<le> length t \<and> list_all (\<lambda>c. c \<in> set hex_chars) (take 8 (drop i t)))"

definition spec_generated_shape :: "string \<Rightarrow> bool" where
  "spec_generated_shape t = (spec_framework_prefixed t \<or> spec_module_hash t \<or> spec_long_hex_run t)"

definition run_at :: "string \<Rightarrow> nat \<Rightarrow> bool" where
  "run_at t i = (i + 8 \<le> length t \<and> list_all is_hex (take 8 (drop i t)))"

function spec_class_tokens :: "string \<Rightarrow> string list" where
  "spec_class_tokens s =
     (let t = dropWhile is_ws s
      in if t = [] then []
         else takeWhile (\<lambda>c. \<not> is_ws c) t # spec_class_tokens (dropWhile (\<lambda>c. \<not> is_ws c) t))"
  by pat_completeness auto
termination
proof (relation "measure length")
  fix s t :: string
  assume t: "t = dropWhile is_ws s" and ne: "t \<noteq> []"
  from ne obtain c cs where tc: "t = c # cs" by (cases t) auto
  have "dropWhile is_ws s \<noteq> []" using t ne by simp
  from hd_dropWhile [OF this] have "\<not> is_ws c" using t tc by (metis list.sel(1))
  then have "length (dropWhile (\<lambda>c. \<not> is_ws c) t) \<le> length cs"
    by (simp add: tc length_dropWhile_le)
  moreover have "length t \<le> length s" by (simp add: t length_dropWhile_le)
  ultimately show "(dropWhile (\<lambda>c. \<not> is_ws c) t, s) \<in> measure length"
    by (simp add: tc)
qed simp

declare spec_class_tokens.simps [simp del]


text \<open>
  A tree without its comment nodes; names that contain no \<open><\<close> (tag names, attribute
  names and refs are written to the output as they are, without escaping); and the
  property of a text that every \<open><\<close> in it either is followed by a character other than
  \<open>!\<close> or starts one of the two shadow root markers.
\<close>

fun without_comments_el :: "element \<Rightarrow> element"
and without_comments :: "node list \<Rightarrow> node list" where
  "without_comments_el (Element tag attrs aref kids shadow) =
     Element tag attrs aref (without_comments kids)
       (case shadow of None \<Rightarrow> None | Some sk \<Rightarrow> Some (without_comments sk))"
| "without_comments [] = []"
| "without_comments (TextNode text # rest) = TextNode text # without_comments rest"
| "without_comments (ElementNode el # rest) = ElementNode (without_comments_el el) # without_comments rest"
| "without_comments (CommentNode c # rest) = without_comments rest"
| "without_comments (OtherNode # rest) = OtherNode # without_comments rest"

definition plain_name :: "string \<Rightarrow> bool" where
  "plain_name n = (CHR ''<'' \<notin> set n)"

fun plain_names_el :: "element \<Rightarrow> bool"
and plain_names :: "node list \<Rightarrow> bool" where
  "plain_names_el (Element tag attrs aref kids shadow) =
     (plain_name tag \<and> \<not> prefix ''!'' tag \<and> list_all (\<lambda>a. plain_name (fst a)) attrs
      \<and> plain_name (str_of aref) \<and> plain_names kids
      \<and> (case shadow of None \<Rightarrow> True | Some sk \<Rightarrow> plain_names sk))"
| "plain_names [] = True"
| "plain_names (ElementNode el # rest) = (plain_names_el el \<and> plain_names rest)"
| "plain_names (n # rest) = plain_names rest"

definition marker_or_tag :: "string \<Rightarrow> bool" where
  "marker_or_tag s =
     (\<forall>i<length s. s ! i = CHR ''<'' \<longrightarrow>
        (Suc i < length s \<and> s ! Suc i \<noteq> CHR ''!'')
        \<or> take 20 (drop i s) = ''<!-- shadow-root -->''
        \<or> take 21 (drop i s) = ''<!-- /shadow-root -->'')"


text \<open>
  The rank of an attribute as a number (zero where \<open>attrOrder\<close> gives none), and the order
  of attribute names as the claim words it: the identity group, \<open>aria-*\<close>, the linking
  group, the value group, \<open>class\<close>, then everything else.
\<close>

definition attrRank :: "string \<times> string \<Rightarrow> int" where
  "attrRank a = (case attrOrder (fst a) of Some n \<Rightarrow> n | None \<Rightarrow> 0)"

definition claimed_order :: "string \<Rightarrow> nat" where
  "claimed_order n =
     (if n = ''id'' then 0 else if n = ''type'' then 1 else if n = ''name'' then 2
      else if n = ''role'' then 3
      else if prefix ''aria-'' n then 4
      else if n = ''href'' then 5 else if n = ''src'' then 6 else if n = ''action'' then 7
      else if n = ''method'' then 8 else if n = ''for'' then 9
      else if n = ''value'' then 10 else if n = ''placeholder'' then 11
      else if n = ''required'' then 12 else if n = ''disabled'' then 13
      else if n = ''checked'' then 14 else if n = ''selected'' then 15
      else if n = ''class'' then 16
      else 17)"

text \<open>
  Pages for the stitcher. The payment page is the page of the repository's test
  named \<open>same-origin iframe content is inlined with BEGIN/END markers\<close>: a heading, an
  \<open>iframe\<close> element with \<open>src\<close> and \<open>id\<close> whose frame holds a card number field, and a
  button. Then: a child frame with a Submit button behind an \<open>iframe\<close> element without
  attributes; frames nested three deep; a child frame whose text holds \<open>$$\<close>; a child frame
  with two nested frames of which the first cannot be entered, and the same with the
  two \<open>iframe\<close> elements in the other order.
\<close>

definition submit_frame :: frame where
  "submit_frame = Frame (Some (Element ''BODY'' [] None
       [ElementNode (Element ''BUTTON'' [] (Some ''f1e2'') [TextNode ''Submit''] None)] None)) []"

definition card_frame :: frame where
  "card_frame = Frame (Some (Element ''BODY'' [] None
       [ElementNode (Element ''INPUT''
          [(''type'', ''text''), (''name'', ''card''), (''placeholder'', ''Card number'')]
          (Some ''f1e2'') [] None)] None)) []"

definition payment_page :: page where
  "payment_page = Page (Frame (Some (Element ''BODY'' [] None
       [TextNode ''\<newline>  '',
        ElementNode (Element ''H1'' [] (Some ''e2'') [TextNode ''Payment''] None),
        ElementNode (Element ''IFRAME'' [(''src'', ''http://localhost/child''), (''id'', ''payment-frame'')]
                       (Some ''e3'') [] None),
        ElementNode (Element ''BUTTON'' [] (Some ''e4'') [TextNode ''Pay''] None)] None))
       [(''e3'', card_frame)])"

definition page_without_src :: page where
  "page_without_src = Page (Frame (Some (Element ''BODY'' [] None
       [ElementNode (Element ''IFRAME'' [] (Some ''e2'') [] None)] None))
       [(''e2'', submit_frame)])"

definition two_nested :: frame where
  "two_nested = Frame (Some (Element ''BODY'' [] None
       [ElementNode (Element ''IFRAME'' [] (Some ''f1e1'') [] None),
        ElementNode (Element ''IFRAME'' [] (Some ''f1e3'') [] None)] None))
       [(''f1e3'', submit_frame)]"

definition two_nested_swapped :: frame where
  "two_nested_swapped = Frame (Some (Element ''BODY'' [] None
       [ElementNode (Element ''IFRAME'' [] (Some ''f1e3'') [] None),
        ElementNode (Element ''IFRAME'' [] (Some ''f1e1'') [] None)] None))
       [(''f1e3'', submit_frame)]"

definition three_levels :: page where
  "three_levels = Page (Frame (Some (Element ''BODY'' [] None
       [ElementNode (Element ''IFRAME'' [] (Some ''e2'') [] None)] None))
     [(''e2'', Frame (Some (Element ''BODY'' [] None
         [ElementNode (Element ''IFRAME'' [] (Some ''f1e1'') [] None)] None))
       [(''f1e1'', Frame (Some (Element ''BODY'' [] None
           [ElementNode (Element ''IFRAME'' [] (Some ''f2e1'') [] None)] None))
         [(''f2e1'', submit_frame)])])])"

definition price_page :: page where
  "price_page = Page (Frame (Some (Element ''BODY'' [] None
       [ElementNode (Element ''IFRAME'' [] (Some ''e2'') [] None)] None))
     [(''e2'', Frame (Some (Element ''BODY'' [] None [TextNode ''US$$ and R&D''] None)) [])])"

definition page_nested :: "frame \<Rightarrow> page" where
  "page_nested child = Page (Frame (Some (Element ''BODY'' [] None
       [ElementNode (Element ''IFRAME'' [] (Some ''e2'') [] None)] None))
       [(''e2'', child)])"

text \<open>
  Notions for sessions: a call that has neither the two environment variables nor
  explicit roots; a step that threw; a step that wrote a diff file; the counter values
  under which the diff files of a session were written; the effects that write a file.
\<close>

definition no_workspace :: "update_call \<Rightarrow> bool" where
  "no_workspace c =
     (\<not> (truthy (env_instanceId c) \<and> truthy (env_workspace c)) \<and> \<not> hasExplicitRoots (ctx c))"

definition threw :: "step \<Rightarrow> bool" where
  "threw st = (case outcome st of Threw e \<Rightarrow> True | Returned r \<Rightarrow> False)"

definition wrote_diff :: "step \<Rightarrow> bool" where
  "wrote_diff st =
     (case outcome st of
        Returned (Some r) \<Rightarrow> diffPath r \<noteq> None
      | _ \<Rightarrow> False)"

definition diff_numbers :: "step list \<Rightarrow> nat list" where
  "diff_numbers steps = map (\<lambda>st. diffCounter (state_after st)) (filter wrote_diff steps)"

definition is_write :: "effect \<Rightarrow> bool" where
  "is_write w = (case w of WriteFile p d \<Rightarrow> True | _ \<Rightarrow> False)"

text \<open>
  A library and calls to run sessions on: a formatter that returns its input, a patch
  that has a hunk header exactly when the two texts differ, and paths joined by \<open>/\<close>;
  a click on \<open>e1\<close> with or without explicit roots; a session of three captures in which
  the write of the first diff file fails; six captures of a page whose text changes
  every time.
\<close>

definition text_page :: "string \<Rightarrow> page" where
  "text_page content = Page (Frame (Some (Element ''BODY'' [] None [TextNode content] None)) [])"

definition plain_library :: library where
  "plain_library =
     \<lparr>html_beautify = (\<lambda>raw. raw),
      createPatch = (\<lambda>f a b. if a = b then ''--- '' @ f else ''--- '' @ f @ '' @@ -1 +1 @@''),
      path_join = join ''/''\<rparr>"

definition click_call :: "page \<Rightarrow> bool \<Rightarrow> update_call" where
  "click_call pg roots =
     \<lparr>page = pg,
      ctx = \<lparr>hasExplicitRoots = roots, firstRootPath = ''/w''\<rparr>,
      toolName = ''browser_click'',
      toolArgs = \<lparr>arg_ref = Some ''e1'', arg_value = None\<rparr>,
      ariaSnapshot = ''- button'',
      env_instanceId = None,
      env_workspace = None,
      fs_fails = (\<lambda>w. False)\<rparr>"

definition failing_diff_write :: "effect \<Rightarrow> bool" where
  "failing_diff_write w =
     (case w of
        WriteFile p d \<Rightarrow> p = ''/w/.playwright-mcp/browser-state/diffs/001-click-e1.diff''
      | _ \<Rightarrow> False)"

definition gap_session :: "update_call list" where
  "gap_session =
     [click_call (text_page ''v0'') True,
      (click_call (text_page ''v1'') True)\<lparr>fs_fails := failing_diff_write\<rparr>,
      click_call (text_page ''v2'') True]"

definition five_changes :: "update_call list" where
  "five_changes =
     map (\<lambda>content. click_call (text_page content) True)
       [''v0'', ''v1'', ''v2'', ''v3'', ''v4'', ''v5'']"

section \<open>What one walk appends to the buffers\<close>

lemma push_simps [simp]:
  "p_html (push s b) = p_html b @ [s]" "p_iframeRefs (push s b) = p_iframeRefs b"
  by (simp_all add: push_def)

lemma fold_push_html: "p_html (fold (\<lambda>a. push (f a)) xs b) = p_html b @ map f xs"
  by (induction xs arbitrary: b) simp_all

lemma fold_push_refs: "p_iframeRefs (fold (\<lambda>a. push (f a)) xs b) = p_iframeRefs b"
  by (induction xs arbitrary: b) simp_all

lemma serializeAttributes_simps [simp]:
  "p_html (serializeAttributes tag attrs b) = p_html b @ map attrText (sortAttrs (collectAttrs tag attrs))"
  "p_iframeRefs (serializeAttributes tag attrs b) = p_iframeRefs b"
  by (simp_all add: serializeAttributes_def fold_push_html fold_push_refs)

lemma serializeRef_simps [simp]:
  "concat (p_html (serializeRef aref b)) = concat (p_html b) @ refText aref"
  "p_iframeRefs (serializeRef aref b) = p_iframeRefs b"
  by (simp_all add: serializeRef_def refText_def split: option.splits)

lemma collectIframeRef_simps [simp]:
  "p_html (collectIframeRef tag aref b) = p_html b"
  "p_iframeRefs (collectIframeRef tag aref b) = p_iframeRefs b @ ownIframeRef tag aref"
  by (simp_all add: collectIframeRef_def ownIframeRef_def split: option.splits)

lemma serialize_text:
  "concat (p_html (serializeElement el b)) = concat (p_html b) @ elementText el"
  "concat (p_html (serializeChildren ns b)) = concat (p_html b) @ childrenText ns"
proof (induction el b and ns b rule: serializeElement_serializeChildren.induct)
  case (1 tag attrs aref kids shadow b)
  show ?case
  proof (cases "shouldSkipElement tag attrs")
    case True
    then show ?thesis by simp
  next
    case False
    note ns = False
    show ?thesis
    proof (cases "tag \<in> set VOID_TAGS")
      case True
      with ns show ?thesis by (simp add: openTagText_def sortedAttrs_def)
    next
      case False
      with ns "1.IH" show ?thesis
        by (cases shadow) (simp_all add: openTagText_def sortedAttrs_def Let_def)
    qed
  qed
qed simp_all

lemma serialize_refs:
  "p_iframeRefs (serializeElement el b) = p_iframeRefs b @ elementRefs el"
  "p_iframeRefs (serializeChildren ns b) = p_iframeRefs b @ childrenRefs ns"
proof (induction el b and ns b rule: serializeElement_serializeChildren.induct)
  case (1 tag attrs aref kids shadow b)
  show ?case
  proof (cases "shouldSkipElement tag attrs")
    case True
    then show ?thesis by simp
  next
    case False
    note ns = False
    show ?thesis
    proof (cases "tag \<in> set VOID_TAGS")
      case True
      with ns show ?thesis by simp
    next
      case False
      with ns "1.IH" show ?thesis
        by (cases shadow) (simp_all add: Let_def)
    qed
  qed
qed simp_all

lemma build_eq: "fst (build root b) = \<lparr>html = elementText root, iframeRefs = elementRefs root\<rparr>"
  by (simp add: build_def Let_def serialize_text serialize_refs)

section \<open>Class tokens\<close>

lemma split_ws_unfold:
  "split_ws cur s =
     (rev cur @ takeWhile (\<lambda>c. \<not> is_ws c) s) #
       (if dropWhile (\<lambda>c. \<not> is_ws c) s = [] then []
        else split_ws [] (dropWhile is_ws (dropWhile (\<lambda>c. \<not> is_ws c) s)))"
proof (induction s arbitrary: cur)
  case Nil
  show ?case by simp
next
  case (Cons c cs)
  show ?case
  proof (cases "is_ws c")
    case True
    then show ?thesis by simp
  next
    case False
    then show ?thesis using Cons [of "c # cur"] by simp
  qed
qed

lemma split_ws_tokens:
  "filter (\<lambda>cls. cls \<noteq> []) (split_ws [] s) = spec_class_tokens s"
proof (induction s rule: spec_class_tokens.induct)
  case (1 s)
  let ?t = "dropWhile is_ws s"
  let ?nw = "\<lambda>c. \<not> is_ws c"
  show ?case
  proof (cases "?t = []")
    case True
    then have all: "\<forall>c\<in>set s. is_ws c" by simp
    then have tw: "takeWhile ?nw s = []"
      by (cases s) auto
    have "filter (\<lambda>cls. cls \<noteq> []) (split_ws [] s) = []"
    proof (cases s)
      case Nil
      then show ?thesis by simp
    next
      case (Cons c cs)
      with all have wc: "is_ws c" and dw: "dropWhile is_ws cs = []" by auto
      show ?thesis using Cons wc by (simp add: dw)
    qed
    with True show ?thesis by (simp add: spec_class_tokens.simps [of s])
  next
    case False
    then obtain c cs where tc: "?t = c # cs" by (cases ?t) auto
    have nc: "\<not> is_ws c" using hd_dropWhile [OF False] tc by (metis list.sel(1))
    have tok: "takeWhile ?nw ?t \<noteq> []" using tc nc by simp
    from "1.IH" [OF refl False]
    have IH: "filter (\<lambda>cls. cls \<noteq> []) (split_ws [] (dropWhile ?nw ?t)) = spec_class_tokens (dropWhile ?nw ?t)" .
    have step: "filter (\<lambda>cls. cls \<noteq> []) (split_ws [] ?t) = takeWhile ?nw ?t # spec_class_tokens (dropWhile ?nw ?t)"
    proof (cases "dropWhile ?nw ?t = []")
      case True
      have e: "spec_class_tokens (dropWhile ?nw ?t) = []"
        by (simp only: True) (simp add: spec_class_tokens.simps [of "[]"])
      have "split_ws [] ?t = [takeWhile ?nw ?t]"
        by (subst split_ws_unfold) (simp only: True, simp)
      then show ?thesis using tok e by simp
    next
      case False
      then obtain d ds where dd: "dropWhile ?nw ?t = d # ds" by (cases "dropWhile ?nw ?t") auto
      have wd: "is_ws d" using hd_dropWhile [OF False] dd by (metis list.sel(1))
      have a: "split_ws [] (dropWhile ?nw ?t) = [] # split_ws [] (dropWhile is_ws ds)"
        using wd by (simp add: dd)
      have c: "split_ws [] ?t = takeWhile ?nw ?t # split_ws [] (dropWhile is_ws ds)"
        by (subst split_ws_unfold) (simp add: dd wd)
      from IH [unfolded a]
      have "filter (\<lambda>cls. cls \<noteq> []) (split_ws [] (dropWhile is_ws ds))
              = spec_class_tokens (dropWhile ?nw ?t)"
        by simp
      then show ?thesis using tok by (simp add: c)
    qed
    have lead: "filter (\<lambda>cls. cls \<noteq> []) (split_ws [] s) = filter (\<lambda>cls. cls \<noteq> []) (split_ws [] ?t)"
    proof (cases s)
      case Nil
      then show ?thesis by simp
    next
      case (Cons e es)
      show ?thesis
      proof (cases "is_ws e")
        case True
        then show ?thesis using Cons by simp
      next
        case False
        then show ?thesis using Cons by simp
      qed
    qed
    show ?thesis
      using lead step False by (simp add: spec_class_tokens.simps [of s] Let_def)
  qed
qed

lemma filterClasses_spec:
  "filterClasses v = join '' '' (filter (\<lambda>t. \<not> generated_shape t) (spec_class_tokens v))"
proof -
  have "filter (\<lambda>cls. cls \<noteq> [] \<and> \<not> list_ex (\<lambda>p. p cls) GENERATED_CLASS_PATTERNS) (split_ws [] v)
      = filter (\<lambda>t. \<not> generated_shape t) (filter (\<lambda>cls. cls \<noteq> []) (split_ws [] v))"
    by (simp add: GENERATED_CLASS_PATTERNS_def generated_shape_def conj_commute)
  then show ?thesis by (simp add: filterClasses_def split_ws_tokens)
qed

text \<open>The three tests of the code decide exactly the three shapes.\<close>

lemma is_hex_chars_all: "\<forall>c. is_hex c = (c \<in> set hex_chars)"
  by code_simp

lemma is_alnum_chars_all: "\<forall>c. is_alnum c = (c \<in> set alnum_chars)"
  by code_simp


lemma is_hex_chars: "is_hex c = (c \<in> set hex_chars)"
  using is_hex_chars_all by blast

lemma is_alnum_chars: "is_alnum c = (c \<in> set alnum_chars)"
  using is_alnum_chars_all by blast

lemma prefix_take: "prefix p t = (take (length p) t = p)"
proof
  assume "prefix p t"
  then show "take (length p) t = p" by (auto simp: prefix_def)
next
  assume "take (length p) t = p"
  then show "prefix p t" by (metis take_is_prefix)
qed

lemma generated_prefix_spec: "generated_prefix t = spec_framework_prefixed t"
  by (simp add: generated_prefix_def spec_framework_prefixed_def prefix_take)

lemma generated_module_hash_spec: "generated_module_hash t = spec_module_hash t"
proof (cases t)
  case Nil
  then show ?thesis by (simp add: generated_module_hash_def spec_module_hash_def)
next
  case (Cons c rest)
  have "list_all is_alnum rest = list_all (\<lambda>c. c \<in> set alnum_chars) rest"
    by (simp add: list_all_iff is_alnum_chars)
  with Cons show ?thesis
    by (auto simp: generated_module_hash_def spec_module_hash_def)
qed

lemma takeWhile_length_iff:
  "(k \<le> length (takeWhile P xs)) = (k \<le> length xs \<and> list_all P (take k xs))"
proof (induction xs arbitrary: k)
  case Nil
  show ?case by simp
next
  case (Cons x xs)
  show ?case
  proof (cases k)
    case 0
    then show ?thesis by simp
  next
    case (Suc j)
    then show ?thesis using Cons [of j] by simp
  qed
qed

lemma run_at_Cons:
  "(\<exists>i. run_at (c # cs) i) = ((is_hex c \<and> 7 \<le> length (takeWhile is_hex cs)) \<or> (\<exists>i. run_at cs i))"
proof
  assume "\<exists>i. run_at (c # cs) i"
  then obtain i where r: "run_at (c # cs) i" ..
  show "(is_hex c \<and> 7 \<le> length (takeWhile is_hex cs)) \<or> (\<exists>i. run_at cs i)"
  proof (cases i)
    case 0
    with r have "is_hex c" "7 \<le> length cs" "list_all is_hex (take 7 cs)"
      by (simp_all add: run_at_def)
    then show ?thesis by (simp add: takeWhile_length_iff)
  next
    case (Suc j)
    with r have "run_at cs j" by (simp add: run_at_def)
    then show ?thesis by blast
  qed
next
  assume "(is_hex c \<and> 7 \<le> length (takeWhile is_hex cs)) \<or> (\<exists>i. run_at cs i)"
  then show "\<exists>i. run_at (c # cs) i"
  proof
    assume "is_hex c \<and> 7 \<le> length (takeWhile is_hex cs)"
    then have "run_at (c # cs) 0" by (simp add: run_at_def takeWhile_length_iff)
    then show ?thesis ..
  next
    assume "\<exists>i. run_at cs i"
    then obtain j where "run_at cs j" ..
    then have "run_at (c # cs) (Suc j)" by (simp add: run_at_def)
    then show ?thesis ..
  qed
qed

lemma hex_run_iff:
  "hex_run n s = (8 \<le> n + length (takeWhile is_hex s) \<or> (\<exists>i. run_at s i))"
proof (induction s arbitrary: n)
  case Nil
  show ?case by (simp add: run_at_def)
next
  case (Cons c cs)
  show ?case
  proof (cases "is_hex c")
    case True
    have "hex_run n (c # cs) = (8 \<le> n \<or> hex_run (Suc n) cs)" using True by simp
    also have "\<dots> = (8 \<le> n \<or> 8 \<le> Suc n + length (takeWhile is_hex cs) \<or> (\<exists>i. run_at cs i))"
      by (simp only: Cons)
    also have "\<dots> = (8 \<le> n + length (takeWhile is_hex (c # cs)) \<or> (\<exists>i. run_at (c # cs) i))"
      using True by (simp only: run_at_Cons) auto
    finally show ?thesis .
  next
    case False
    have first: "(8 \<le> length (takeWhile is_hex cs)) \<Longrightarrow> \<exists>i. run_at cs i"
    proof -
      assume "8 \<le> length (takeWhile is_hex cs)"
      then have "run_at cs 0" by (simp add: run_at_def takeWhile_length_iff)
      then show ?thesis ..
    qed
    have "hex_run n (c # cs) = (8 \<le> n \<or> hex_run 0 cs)" using False by simp
    also have "\<dots> = (8 \<le> n \<or> 8 \<le> length (takeWhile is_hex cs) \<or> (\<exists>i. run_at cs i))"
      by (simp only: Cons) simp
    also have "\<dots> = (8 \<le> n \<or> (\<exists>i. run_at cs i))" using first by blast
    also have "\<dots> = (8 \<le> n + length (takeWhile is_hex (c # cs)) \<or> (\<exists>i. run_at (c # cs) i))"
      using False by (simp only: run_at_Cons) simp
    finally show ?thesis .
  qed
qed

lemma generated_hex_spec: "generated_hex t = spec_long_hex_run t"
proof -
  have a: "run_at t i = (i + 8 \<le> length t \<and> list_all (\<lambda>c. c \<in> set hex_chars) (take 8 (drop i t)))" for i
    by (simp add: run_at_def list_all_iff is_hex_chars)
  have b: "8 \<le> length (takeWhile is_hex t) \<Longrightarrow> \<exists>i. run_at t i"
  proof -
    assume "8 \<le> length (takeWhile is_hex t)"
    then have "run_at t 0" by (simp add: run_at_def takeWhile_length_iff)
    then show ?thesis ..
  qed
  have "generated_hex t = (\<exists>i. run_at t i)"
    using b by (auto simp: generated_hex_def hex_run_iff)
  then show ?thesis by (simp add: spec_long_hex_run_def a)
qed

lemma generated_shape_spec: "generated_shape t = spec_generated_shape t"
  by (simp add: generated_shape_def spec_generated_shape_def generated_prefix_spec
        generated_module_hash_spec generated_hex_spec)

section \<open>Comment nodes and comment markers\<close>

lemma text_without_comments:
  "elementText (without_comments_el el) = elementText el"
  "childrenText (without_comments ns) = childrenText ns"
proof (induction el and ns rule: without_comments_el_without_comments.induct)
  case (1 tag attrs aref kids shadow)
  then show ?case
    by (cases shadow) (simp_all add: openTagText_def sortedAttrs_def)
qed simp_all

lemma refs_without_comments:
  "elementRefs (without_comments_el el) = elementRefs el"
  "childrenRefs (without_comments ns) = childrenRefs ns"
proof (induction el and ns rule: without_comments_el_without_comments.induct)
  case (1 tag attrs aref kids shadow)
  then show ?case
    by (cases shadow) simp_all
qed simp_all

lemma marker_or_tag_append:
  assumes a: "marker_or_tag a" and b: "marker_or_tag b"
  shows "marker_or_tag (a @ b)"
  unfolding marker_or_tag_def
proof (intro allI impI)
  fix i
  assume i: "i < length (a @ b)" and lt: "(a @ b) ! i = CHR ''<''"
  show "(Suc i < length (a @ b) \<and> (a @ b) ! Suc i \<noteq> CHR ''!'')
        \<or> take 20 (drop i (a @ b)) = ''<!-- shadow-root -->''
        \<or> take 21 (drop i (a @ b)) = ''<!-- /shadow-root -->''"
  proof (cases "i < length a")
    case True
    then have "a ! i = CHR ''<''" using lt by (simp add: nth_append)
    with a True consider
        (t) "Suc i < length a" "a ! Suc i \<noteq> CHR ''!''"
      | (m1) "take 20 (drop i a) = ''<!-- shadow-root -->''"
      | (m2) "take 21 (drop i a) = ''<!-- /shadow-root -->''"
      unfolding marker_or_tag_def by blast
    then show ?thesis
    proof cases
      case t
      then show ?thesis by (simp add: nth_append)
    next
      case m1
      then have "length (take 20 (drop i a)) = 20" by simp
      then have "20 \<le> length a - i" by simp
      then show ?thesis using m1 by simp
    next
      case m2
      then have "length (take 21 (drop i a)) = 21" by simp
      then have "21 \<le> length a - i" by simp
      then show ?thesis using m2 by simp
    qed
  next
    case False
    define j where "j = i - length a"
    have j: "j < length b" "b ! j = CHR ''<''" "i = length a + j"
      using False i lt by (auto simp: j_def nth_append)
    with b consider
        (t) "Suc j < length b" "b ! Suc j \<noteq> CHR ''!''"
      | (m1) "take 20 (drop j b) = ''<!-- shadow-root -->''"
      | (m2) "take 21 (drop j b) = ''<!-- /shadow-root -->''"
      unfolding marker_or_tag_def by blast
    then show ?thesis
    proof cases
      case t
      then show ?thesis using j by (simp add: nth_append)
    next
      case m1
      then show ?thesis using j by simp
    next
      case m2
      then show ?thesis using j by simp
    qed
  qed
qed

lemma marker_or_tag_plain: "CHR ''<'' \<notin> set s \<Longrightarrow> marker_or_tag s"
  unfolding marker_or_tag_def by (metis nth_mem)

lemma marker_or_tag_Nil [simp]: "marker_or_tag []"
  by (simp add: marker_or_tag_def)

lemma marker_or_tag_open:
  assumes "CHR ''<'' \<notin> set r" and "r \<noteq> []" and "hd r \<noteq> CHR ''!''"
  shows "marker_or_tag (CHR ''<'' # r)"
  unfolding marker_or_tag_def
proof (intro allI impI)
  fix i
  assume i: "i < length (CHR ''<'' # r)" and lt: "(CHR ''<'' # r) ! i = CHR ''<''"
  have "i = 0"
  proof (rule ccontr)
    assume "i \<noteq> 0"
    then obtain k where "i = Suc k" by (cases i) auto
    with i lt assms(1) show False by (auto simp: in_set_conv_nth)
  qed
  with assms show "(Suc i < length (CHR ''<'' # r) \<and> (CHR ''<'' # r) ! Suc i \<noteq> CHR ''!'')
        \<or> take 20 (drop i (CHR ''<'' # r)) = ''<!-- shadow-root -->''
        \<or> take 21 (drop i (CHR ''<'' # r)) = ''<!-- /shadow-root -->''"
    by (cases r) auto
qed

lemma marker_or_tag_begin: "marker_or_tag ''<!-- shadow-root -->''"
  unfolding marker_or_tag_def
proof (intro allI impI)
  fix i
  assume i: "i < length ''<!-- shadow-root -->''" and lt: "''<!-- shadow-root -->'' ! i = CHR ''<''"
  have "i = 0"
  proof (rule ccontr)
    assume "i \<noteq> 0"
    then obtain k where k: "i = Suc k" by (cases i) auto
    have "CHR ''<'' \<notin> set ''!-- shadow-root -->''" by simp
    moreover have "''!-- shadow-root -->'' ! k = CHR ''<''" "k < length ''!-- shadow-root -->''"
      using i lt k by simp_all
    ultimately show False by (metis nth_mem)
  qed
  then show "(Suc i < length ''<!-- shadow-root -->'' \<and> ''<!-- shadow-root -->'' ! Suc i \<noteq> CHR ''!'')
        \<or> take 20 (drop i ''<!-- shadow-root -->'') = ''<!-- shadow-root -->''
        \<or> take 21 (drop i ''<!-- shadow-root -->'') = ''<!-- /shadow-root -->''"
    by simp
qed

lemma marker_or_tag_end: "marker_or_tag ''<!-- /shadow-root -->''"
  unfolding marker_or_tag_def
proof (intro allI impI)
  fix i
  assume i: "i < length ''<!-- /shadow-root -->''" and lt: "''<!-- /shadow-root -->'' ! i = CHR ''<''"
  have "i = 0"
  proof (rule ccontr)
    assume "i \<noteq> 0"
    then obtain k where k: "i = Suc k" by (cases i) auto
    have "CHR ''<'' \<notin> set ''!-- /shadow-root -->''" by simp
    moreover have "''!-- /shadow-root -->'' ! k = CHR ''<''" "k < length ''!-- /shadow-root -->''"
      using i lt k by simp_all
    ultimately show False by (metis nth_mem)
  qed
  then show "(Suc i < length ''<!-- /shadow-root -->'' \<and> ''<!-- /shadow-root -->'' ! Suc i \<noteq> CHR ''!'')
        \<or> take 20 (drop i ''<!-- /shadow-root -->'') = ''<!-- shadow-root -->''
        \<or> take 21 (drop i ''<!-- /shadow-root -->'') = ''<!-- /shadow-root -->''"
    by simp
qed

lemma notin_replaceAll_char:
  "x \<notin> set r \<Longrightarrow> x \<notin> set s \<or> x = c \<Longrightarrow> x \<notin> set (replaceAll_char c r s)"
  by (auto simp: replaceAll_char_def split: if_splits)

lemma lt_notin_escapeHtml: "CHR ''<'' \<notin> set (escapeHtml t)"
  unfolding escapeHtml_def
  by (rule notin_replaceAll_char, simp, rule disjI1, rule notin_replaceAll_char, simp_all)

lemma lt_notin_escapeAttr: "CHR ''<'' \<notin> set (escapeAttr t)"
  unfolding escapeAttr_def
  by (rule notin_replaceAll_char, simp, rule disjI1, rule notin_replaceAll_char, simp_all)

lemma lower_char_neq:
  assumes "65 \<le> (n::nat)" and "n \<le> 222"
  shows "char_of (n + 32) \<noteq> CHR ''<''" and "char_of (n + 32) \<noteq> CHR ''!''"
proof -
  have m: "(n + 32) mod 256 = n + 32" using assms by simp
  show "char_of (n + 32) \<noteq> CHR ''<''"
  proof
    assume "char_of (n + 32) = CHR ''<''"
    then have "(of_char (char_of (n + 32) :: char) :: nat) = of_char (CHR ''<'')" by simp
    then show False using assms by (simp add: m)
  qed
  show "char_of (n + 32) \<noteq> CHR ''!''"
  proof
    assume "char_of (n + 32) = CHR ''!''"
    then have "(of_char (char_of (n + 32) :: char) :: nat) = of_char (CHR ''!'')" by simp
    then show False using assms by (simp add: m)
  qed
qed

lemma lower_one:
  "c \<noteq> CHR ''<'' \<Longrightarrow>
     (let n = (of_char c :: nat) in
      if (65 \<le> n \<and> n \<le> 90) \<or> (192 \<le> n \<and> n \<le> 222 \<and> n \<noteq> 215)
      then char_of (n + 32) else c) \<noteq> CHR ''<''"
  "c \<noteq> CHR ''!'' \<Longrightarrow>
     (let n = (of_char c :: nat) in
      if (65 \<le> n \<and> n \<le> 90) \<or> (192 \<le> n \<and> n \<le> 222 \<and> n \<noteq> 215)
      then char_of (n + 32) else c) \<noteq> CHR ''!''"
  using lower_char_neq [of "of_char c"] by (auto simp: Let_def)

lemma plain_toLowerCase: "plain_name tag \<Longrightarrow> CHR ''<'' \<notin> set (toLowerCase tag)"
proof -
  assume p: "plain_name tag"
  show ?thesis
  proof
    assume "CHR ''<'' \<in> set (toLowerCase tag)"
    then obtain c where c: "c \<in> set tag"
      and e: "(let n = (of_char c :: nat) in
                if (65 \<le> n \<and> n \<le> 90) \<or> (192 \<le> n \<and> n \<le> 222 \<and> n \<noteq> 215)
                then char_of (n + 32) else c) = CHR ''<''"
      unfolding toLowerCase_def by auto
    from c p have "c \<noteq> CHR ''<''" by (auto simp: plain_name_def)
    from lower_one(1) [OF this] e show False by simp
  qed
qed

lemma bang_toLowerCase:
  "\<not> prefix ''!'' tag \<Longrightarrow> toLowerCase tag = [] \<or> hd (toLowerCase tag) \<noteq> CHR ''!''"
proof (cases tag)
  case Nil
  then show ?thesis by (simp add: toLowerCase_def)
next
  case (Cons c cs)
  assume "\<not> prefix ''!'' tag"
  with Cons have "c \<noteq> CHR ''!''" by auto
  from lower_one(2) [OF this] show ?thesis using Cons by (simp add: toLowerCase_def)
qed

lemma set_insort_attr: "set (insort_attr a bs) = insert a (set bs)"
  by (induction bs) auto

lemma set_sortAttrs: "set (sortAttrs xs) = set xs"
  by (induction xs) (simp_all add: sortAttrs_def set_insort_attr)

lemma collectAttrs_names: "fst ` set (collectAttrs tag attrs) \<subseteq> fst ` set attrs"
  by (induction tag attrs rule: collectAttrs.induct) (auto simp: Let_def split: if_splits)

lemma lt_notin_attrText: "plain_name (fst a) \<Longrightarrow> CHR ''<'' \<notin> set (attrText a)"
  by (simp add: attrText_def plain_name_def lt_notin_escapeAttr)

lemma lt_notin_refText: "plain_name (str_of aref) \<Longrightarrow> CHR ''<'' \<notin> set (refText aref)"
  by (auto simp: refText_def plain_name_def str_of_def split: option.splits)

lemma marker_or_tag_openTag:
  assumes "plain_name tag" and "\<not> prefix ''!'' tag"
    and "list_all (\<lambda>a. plain_name (fst a)) attrs" and "plain_name (str_of aref)"
  shows "marker_or_tag (openTagText (Element tag attrs aref kids shadow))"
proof -
  let ?r = "toLowerCase tag @ concat (map attrText (sortAttrs (collectAttrs tag attrs)))
              @ refText aref @ ''>''"
  have names: "\<forall>a\<in>set (sortAttrs (collectAttrs tag attrs)). plain_name (fst a)"
  proof
    fix a assume "a \<in> set (sortAttrs (collectAttrs tag attrs))"
    then have "fst a \<in> fst ` set attrs"
      using collectAttrs_names [of tag attrs] by (auto simp: set_sortAttrs)
    with assms(3) show "plain_name (fst a)" by (auto simp: list_all_iff)
  qed
  have "CHR ''<'' \<notin> set ?r"
    using assms(1,4) names
    by (auto simp: plain_toLowerCase lt_notin_refText dest: lt_notin_attrText)
  moreover have "?r \<noteq> []" by simp
  moreover have "hd ?r \<noteq> CHR ''!''"
  proof (cases "toLowerCase tag = []")
    case True
    show ?thesis
    proof (cases "sortAttrs (collectAttrs tag attrs)")
      case Nil
      then show ?thesis using True
        by (cases aref) (auto simp: refText_def)
    next
      case (Cons a as)
      then show ?thesis using True by (simp add: attrText_def)
    qed
  next
    case False
    then show ?thesis using bang_toLowerCase [OF assms(2)] by simp
  qed
  ultimately have "marker_or_tag (CHR ''<'' # ?r)" by (rule marker_or_tag_open)
  then show ?thesis by (simp add: openTagText_def sortedAttrs_def)
qed

lemma marker_or_tag_close:
  assumes "plain_name tag"
  shows "marker_or_tag (''</'' @ toLowerCase tag @ ''>'')"
proof -
  have "CHR ''<'' \<notin> set (CHR ''/'' # toLowerCase tag @ ''>'')"
    using plain_toLowerCase [OF assms] by simp
  then have "marker_or_tag (CHR ''<'' # (CHR ''/'' # toLowerCase tag @ ''>''))"
    by (rule marker_or_tag_open) simp_all
  then show ?thesis by simp
qed

lemma marker_or_tag_text:
  "plain_names_el el \<Longrightarrow> marker_or_tag (elementText el)"
  "plain_names ns \<Longrightarrow> marker_or_tag (childrenText ns)"
proof (induction el and ns rule: elementText_childrenText.induct)
  case (1 tag attrs aref kids shadow)
  let ?el = "Element tag attrs aref kids shadow"
  from "1.prems" have p: "plain_name tag" "\<not> prefix ''!'' tag"
    "list_all (\<lambda>a. plain_name (fst a)) attrs" "plain_name (str_of aref)"
    by simp_all
  have otag: "marker_or_tag (openTagText ?el)"
    by (rule marker_or_tag_openTag [OF p])
  have ctag: "marker_or_tag (''</'' @ toLowerCase tag @ ''>'')"
    by (rule marker_or_tag_close [OF p(1)])
  show ?case
  proof (cases "shouldSkipElement tag attrs")
    case True
    then show ?thesis by simp
  next
    case False
    note ns = False
    show ?thesis
    proof (cases "tag \<in> set VOID_TAGS")
      case True
      with ns otag show ?thesis by simp
    next
      case False
      from "1.IH"(1) [OF ns False] "1.prems"
      have kids: "marker_or_tag (childrenText kids)" by simp
      have sh: "marker_or_tag (case shadow of None \<Rightarrow> []
               | Some sk \<Rightarrow> ''<!-- shadow-root -->'' @ childrenText sk @ ''<!-- /shadow-root -->'')"
      proof (cases shadow)
        case None
        then show ?thesis by simp
      next
        case (Some sk)
        from "1.IH"(2) [OF ns False Some] "1.prems" Some
        have "marker_or_tag (childrenText sk)" by simp
        then have "marker_or_tag (''<!-- shadow-root -->'' @ (childrenText sk @ ''<!-- /shadow-root -->''))"
          by (intro marker_or_tag_append marker_or_tag_begin marker_or_tag_end)
        then show ?thesis using Some by simp
      qed
      have "marker_or_tag (openTagText ?el @ (childrenText kids @
              ((case shadow of None \<Rightarrow> []
               | Some sk \<Rightarrow> ''<!-- shadow-root -->'' @ childrenText sk @ ''<!-- /shadow-root -->'')
              @ (''</'' @ toLowerCase tag @ ''>''))))"
        by (intro marker_or_tag_append otag kids sh ctag)
      then show ?thesis using ns False by simp
    qed
  qed
next
  case (3 content rest)
  then have "marker_or_tag (childrenText rest)" by simp
  moreover have "marker_or_tag (if trim content \<noteq> [] then escapeHtml content else [])"
    by (simp add: marker_or_tag_plain lt_notin_escapeHtml)
  ultimately show ?case by (simp add: marker_or_tag_append)
next
  case (4 el rest)
  then show ?case by (simp add: marker_or_tag_append)
qed simp_all

lemma comment_open_is_marker:
  assumes ok: "marker_or_tag s" and c: "take 4 (drop i s) = ''<!--''"
  shows "take 20 (drop i s) = ''<!-- shadow-root -->'' \<or> take 21 (drop i s) = ''<!-- /shadow-root -->''"
proof -
  from c have len: "length (take 4 (drop i s)) = 4" by simp
  then have i: "i + 4 \<le> length s" by simp
  have "s ! i = take 4 (drop i s) ! 0" using i by simp
  then have lt: "s ! i = CHR ''<''" by (simp add: c)
  have "s ! Suc i = take 4 (drop i s) ! 1" using i by simp
  then have bang: "s ! Suc i = CHR ''!''" by (simp add: c)
  have "i < length s" using i by simp
  with ok lt have "(Suc i < length s \<and> s ! Suc i \<noteq> CHR ''!'')
      \<or> take 20 (drop i s) = ''<!-- shadow-root -->''
      \<or> take 21 (drop i s) = ''<!-- /shadow-root -->''"
    unfolding marker_or_tag_def by blast
  with bang show ?thesis by blast
qed

lemma collectAttrs_append:
  "collectAttrs tag (xs @ ys) = collectAttrs tag xs @ collectAttrs tag ys"
  by (induction tag xs rule: collectAttrs.induct) (simp_all add: Let_def)

lemma collectAttrs_class:
  "collectAttrs tag [(''class'', v)] =
     (if filterClasses v = [] then [] else [(''class'', filterClasses v)])"
  by (simp add: shouldSkipAttribute_def isSvgNoise_def SVG_NOISE_ATTRS_def Let_def)

section \<open>The serializer: determinism, class filtering, comments\<close>

text \<open>
  Claim C1 (serializer determinism). The result of \<open>build\<close> is a function of the tree alone:
  it is the same whatever the buffers of the builder held before, so building the same
  tree a second time, on the builder the first walk left behind, gives the same text
  and the same frame refs.
\<close>

theorem serializer_deterministic:
  "fst (build root b) = fst (build root b')
   \<and> fst (build root (snd (build root b))) = fst (build root b)"
  by (simp add: build_eq)

theorem serializer_deterministic_witness:
  "fst (build (Element ''P'' [(''id'', ''x'')] None [TextNode ''hi''] None) new_AIDomBuilder)
     = fst (build (Element ''P'' [(''id'', ''x'')] None [TextNode ''hi''] None)
             \<lparr>p_html = [''stale''], p_iframeRefs = [''e9'']\<rparr>)"
  using serializer_deterministic
          [of "Element ''P'' [(''id'', ''x'')] None [TextNode ''hi''] None" new_AIDomBuilder
              "\<lparr>p_html = [''stale''], p_iframeRefs = [''e9'']\<rparr>"]
  by (rule conjunct1)

text \<open>
  Claim C9 (class filtering). \<open>filterClasses\<close> keeps, in order and joined by single spaces,
  exactly the white space separated tokens of the class value that have none of the
  three generated shapes (framework prefix, module hash, run of eight hexadecimal
  digits); the \<open>class\<close> attribute is kept with the filtered value, and dropped when no
  token survives. The two values of the specification give \<open>class="help-text"\<close> and no
  class attribute at all. In the last value every shape occurs, next to tokens that
  just miss one: seven hexadecimal digits, four characters after the underscore, a
  prefix not at the start, a character that is neither letter nor digit.
\<close>

theorem class_filtering:
  \<open>filterClasses v = join '' '' (filter (\<lambda>t. \<not> spec_generated_shape t) (spec_class_tokens v))
   \<and> collectAttrs tag (pre @ (''class'', v) # post) =
       collectAttrs tag pre
         @ (if filterClasses v = [] then [] else [(''class'', filterClasses v)])
         @ collectAttrs tag post
   \<and> html (fst (build (Element ''SPAN'' [(''class'', ''css-1a2b3c help-text sc-dkPtRN'')]
                      None [] None) b))
       = ''<span class="help-text"></span>''
   \<and> html (fst (build (Element ''SPAN'' [(''class'', ''css-1a2b3c sc-dkPtRN'')] None [] None) b))
       = ''<span></span>''
   \<and> filterClasses
         (''note a1b2c3d4e5 DEADBEEF xg12345678 emotion-1 styled-x jsx-9 _3fkL2xB ''
          @ ''abcdef1 _abcd mycss-x _3fk-L2xB'')
       = ''note abcdef1 _abcd mycss-x _3fk-L2xB''\<close>
proof (intro conjI)
  show "filterClasses v = join '' '' (filter (\<lambda>t. \<not> spec_generated_shape t) (spec_class_tokens v))"
    using filterClasses_spec [of v] by (simp add: generated_shape_spec)
  have "collectAttrs tag (pre @ [(''class'', v)] @ post) =
          collectAttrs tag pre @ collectAttrs tag [(''class'', v)] @ collectAttrs tag post"
    by (simp only: collectAttrs_append)
  then show "collectAttrs tag (pre @ (''class'', v) # post) =
       collectAttrs tag pre
         @ (if filterClasses v = [] then [] else [(''class'', filterClasses v)])
         @ collectAttrs tag post"
    by (simp only: collectAttrs_class append_Cons append_Nil)
  have t1: \<open>elementText (Element ''SPAN'' [(''class'', ''css-1a2b3c help-text sc-dkPtRN'')]
                      None [] None) = ''<span class="help-text"></span>''\<close>
    by code_simp
  have t2: "elementText (Element ''SPAN'' [(''class'', ''css-1a2b3c sc-dkPtRN'')] None [] None)
              = ''<span></span>''"
    by code_simp
  show \<open>html (fst (build (Element ''SPAN'' [(''class'', ''css-1a2b3c help-text sc-dkPtRN'')]
                      None [] None) b))
       = ''<span class="help-text"></span>''\<close>
    by (simp only: build_eq t1 fst_conv extraction.select_convs)
  show "html (fst (build (Element ''SPAN'' [(''class'', ''css-1a2b3c sc-dkPtRN'')] None [] None) b))
       = ''<span></span>''"
    by (simp only: build_eq t2 fst_conv extraction.select_convs)
  show "filterClasses
         (''note a1b2c3d4e5 DEADBEEF xg12345678 emotion-1 styled-x jsx-9 _3fkL2xB ''
          @ ''abcdef1 _abcd mycss-x _3fk-L2xB'')
       = ''note abcdef1 _abcd mycss-x _3fk-L2xB''"
    by code_simp
qed

theorem class_filtering_witness:
  "filterClasses ''btn  _3fkL2xB primary'' = ''btn primary''
   \<and> join '' '' (filter (\<lambda>t. \<not> spec_generated_shape t) (spec_class_tokens ''btn  _3fkL2xB primary''))
       = ''btn primary''"
proof -
  have "filterClasses ''btn  _3fkL2xB primary'' = ''btn primary''" by code_simp
  with class_filtering [of "''btn  _3fkL2xB primary''" "[]" "[]" "[]" new_AIDomBuilder]
  show ?thesis by simp
qed

text \<open>
  Claim C10 (comments are never emitted), as amended. The text built from a tree is the
  text built from the tree without its comment nodes. When no tag name, attribute name
  or ref contains \<open><\<close> and no tag name starts with \<open>!\<close>, every \<open><!--\<close> in the text built
  starts one of the two shadow root markers of the builder. Names are written as they
  are, so an attribute named \<open>x<!--\<close> (as a parser reads it from \<open><div x<!--="1">\<close>) puts a
  \<open><!--\<close> into the text that is no marker; on a shadow host the next \<open>-->\<close> closes it.
\<close>

theorem comments_never_emitted:
  "html (fst (build (without_comments_el root) b)) = html (fst (build root b))
   \<and> (plain_names_el root \<longrightarrow>
        (\<forall>i. take 4 (drop i (html (fst (build root b)))) = ''<!--'' \<longrightarrow>
           take 20 (drop i (html (fst (build root b)))) = ''<!-- shadow-root -->''
           \<or> take 21 (drop i (html (fst (build root b)))) = ''<!-- /shadow-root -->''))"
  by (auto simp: build_eq text_without_comments dest!: marker_or_tag_text(1)
           dest: comment_open_is_marker)

theorem comment_shaped_name_counterexample:
  \<open>html (fst (build (Element ''DIV'' [(''x<!--'', ''1'')] None [CommentNode ''c'']
                      (Some [TextNode ''s''])) new_AIDomBuilder))
     = ''<div x<!--="1"><!-- shadow-root -->s<!-- /shadow-root --></div>''
   \<and> take 4 (drop 6 (html (fst (build (Element ''DIV'' [(''x<!--'', ''1'')] None [CommentNode ''c'']
                                         (Some [TextNode ''s''])) new_AIDomBuilder))))
       = ''<!--''
   \<and> take 20 (drop 6 (html (fst (build (Element ''DIV'' [(''x<!--'', ''1'')] None [CommentNode ''c'']
                                          (Some [TextNode ''s''])) new_AIDomBuilder))))
       \<noteq> ''<!-- shadow-root -->''
   \<and> take 21 (drop 6 (html (fst (build (Element ''DIV'' [(''x<!--'', ''1'')] None [CommentNode ''c'']
                                          (Some [TextNode ''s''])) new_AIDomBuilder))))
       \<noteq> ''<!-- /shadow-root -->''\<close>
proof -
  have o: \<open>html (fst (build (Element ''DIV'' [(''x<!--'', ''1'')] None [CommentNode ''c'']
                             (Some [TextNode ''s''])) new_AIDomBuilder))
     = ''<div x<!--="1"><!-- shadow-root -->s<!-- /shadow-root --></div>''\<close>
    by code_simp
  show ?thesis unfolding o by simp
qed

theorem comments_never_emitted_witness:
  "plain_names_el (Element ''DIV'' [] None [CommentNode ''<!-- x -->'', TextNode ''a'']
                     (Some [CommentNode ''y'', ElementNode (Element ''B'' [] None [] None)]))
   \<and> html (fst (build (Element ''DIV'' [] None [CommentNode ''<!-- x -->'', TextNode ''a'']
                     (Some [CommentNode ''y'', ElementNode (Element ''B'' [] None [] None)]))
                 new_AIDomBuilder))
       = ''<div>a<!-- shadow-root --><b></b><!-- /shadow-root --></div>''
   \<and> take 20 (drop 6 (html (fst (build (Element ''DIV'' [] None [CommentNode ''<!-- x -->'', TextNode ''a'']
                     (Some [CommentNode ''y'', ElementNode (Element ''B'' [] None [] None)]))
                 new_AIDomBuilder)))) = ''<!-- shadow-root -->''"
proof -
  let ?root = "Element ''DIV'' [] None [CommentNode ''<!-- x -->'', TextNode ''a'']
                     (Some [CommentNode ''y'', ElementNode (Element ''B'' [] None [] None)])"
  let ?out = "html (fst (build ?root new_AIDomBuilder))"
  have p: "plain_names_el ?root" by (simp add: plain_name_def str_of_def)
  have w: "html (fst (build (without_comments_el ?root) new_AIDomBuilder))
             = ''<div>a<!-- shadow-root --><b></b><!-- /shadow-root --></div>''"
    by code_simp
  from comments_never_emitted [of ?root new_AIDomBuilder]
  have eq: "html (fst (build (without_comments_el ?root) new_AIDomBuilder)) = ?out"
    and m: "\<forall>i. take 4 (drop i ?out) = ''<!--'' \<longrightarrow>
           take 20 (drop i ?out) = ''<!-- shadow-root -->''
           \<or> take 21 (drop i ?out) = ''<!-- /shadow-root -->''"
    using p by blast+
  from eq w have o: "?out = ''<div>a<!-- shadow-root --><b></b><!-- /shadow-root --></div>''"
    by simp
  have "take 4 (drop 6 ?out) = ''<!--''" by (simp add: o)
  with m have "take 20 (drop 6 ?out) = ''<!-- shadow-root -->''
           \<or> take 21 (drop 6 ?out) = ''<!-- /shadow-root -->''" by blast
  then have "take 20 (drop 6 ?out) = ''<!-- shadow-root -->''" by (simp add: o)
  with p o show ?thesis by simp
qed

section \<open>The order of attributes\<close>

lemma attrOrder_numeric:
  "n \<notin> set OBJECT_PROTOTYPE_KEYS \<Longrightarrow> attrOrder n \<noteq> None"
  by (simp add: attrOrder_def split: option.splits)

lemma cmp_gt_rank:
  "attrOrder (fst a) \<noteq> None \<Longrightarrow> attrOrder (fst b) \<noteq> None \<Longrightarrow>
     cmp_gt a b = (attrRank b < attrRank a)"
  by (auto simp: cmp_gt_def attrRank_def)

lemma insort_attr_insort_key:
  "attrOrder (fst a) \<noteq> None \<Longrightarrow> \<forall>b\<in>set bs. attrOrder (fst b) \<noteq> None \<Longrightarrow>
     insort_attr a bs = insort_key attrRank a bs"
  by (induction bs) (auto simp: cmp_gt_rank)

lemma sortAttrs_Cons: "sortAttrs (a # xs) = insort_attr a (sortAttrs xs)"
  by (simp add: sortAttrs_def)

lemma sortAttrs_sort_key:
  "\<forall>a\<in>set xs. attrOrder (fst a) \<noteq> None \<Longrightarrow> sortAttrs xs = sort_key attrRank xs"
proof (induction xs)
  case Nil
  show ?case by (simp add: sortAttrs_def)
next
  case (Cons a xs)
  then have IH: "sortAttrs xs = sort_key attrRank xs" by simp
  have "insort_attr a (sort_key attrRank xs) = insort_key attrRank a (sort_key attrRank xs)"
    using Cons.prems by (intro insort_attr_insort_key) simp_all
  then show ?case by (simp add: sortAttrs_Cons IH)
qed

lemma collectAttrs_concat:
  "collectAttrs tag xs = concat (map (\<lambda>a. collectAttrs tag [a]) xs)"
proof (induction xs)
  case Nil
  show ?case by simp
next
  case (Cons a xs)
  have "collectAttrs tag (a # xs) = collectAttrs tag [a] @ collectAttrs tag xs"
    using collectAttrs_append [of tag "[a]" xs] by simp
  with Cons show ?case by simp
qed

lemma mset_collectAttrs_sum:
  "mset (collectAttrs tag xs) = sum_mset (image_mset (\<lambda>a. mset (collectAttrs tag [a])) (mset xs))"
proof (induction xs)
  case Nil
  show ?case by simp
next
  case (Cons a xs)
  have "collectAttrs tag (a # xs) = collectAttrs tag [a] @ collectAttrs tag xs"
    using collectAttrs_append [of tag "[a]" xs] by simp
  with Cons show ?case by simp
qed

lemma mset_collectAttrs:
  "mset xs' = mset xs \<Longrightarrow> mset (collectAttrs tag xs') = mset (collectAttrs tag xs)"
  using mset_collectAttrs_sum [of tag xs'] mset_collectAttrs_sum [of tag xs] by metis

lemma filter_collectAttrs:
  "filter (\<lambda>a. P (fst a)) (collectAttrs tag xs) = collectAttrs tag (filter (\<lambda>a. P (fst a)) xs)"
  by (induction tag xs rule: collectAttrs.induct) (auto simp: Let_def)

lemma ref_notin_collectAttrs: "''ref'' \<notin> fst ` set (collectAttrs tag attrs)"
  by (induction tag attrs rule: collectAttrs.induct) (auto simp: Let_def split: if_splits)

lemma collectAttrs_numeric:
  assumes "\<forall>a\<in>set attrs. fst a \<notin> set OBJECT_PROTOTYPE_KEYS"
  shows "\<forall>a\<in>set (collectAttrs tag attrs). attrOrder (fst a) \<noteq> None"
proof
  fix a assume "a \<in> set (collectAttrs tag attrs)"
  then have "fst a \<in> fst ` set attrs" using collectAttrs_names [of tag attrs] by auto
  then obtain b where "b \<in> set attrs" and "fst b = fst a" by auto
  with assms have "fst a \<notin> set OBJECT_PROTOTYPE_KEYS" by metis
  then show "attrOrder (fst a) \<noteq> None" by (rule attrOrder_numeric)
qed

lemma map_of_filter_key:
  "map_of xs k = map_of (filter (\<lambda>a. fst a = k) xs) k"
  by (induction xs) auto

lemma attrOrder_rel: "attrOrder n = Some 44 \<longleftrightarrow> n = ''rel''"
proof
  assume h: "attrOrder n = Some 44"
  show "n = ''rel''"
  proof (cases "map_of ATTR_ORDER n")
    case None
    then show ?thesis using h by (simp add: attrOrder_def split: if_splits)
  next
    case (Some k)
    with h have "k = 44" by (simp add: attrOrder_def)
    with Some have "(n, 44) \<in> set ATTR_ORDER" by (auto dest: map_of_SomeD)
    then show ?thesis by (simp add: ATTR_ORDER_def)
  qed
next
  assume "n = ''rel''"
  moreover have "attrOrder ''rel'' = Some 44" by code_simp
  ultimately show "attrOrder n = Some 44" by simp
qed


lemma sorted_sortAttrs:
  "\<forall>a\<in>set xs. attrOrder (fst a) \<noteq> None \<Longrightarrow> sorted (map attrRank (sortAttrs xs))"
  by (simp add: sortAttrs_sort_key)

lemma stable_sortAttrs:
  "\<forall>a\<in>set xs. attrOrder (fst a) \<noteq> None \<Longrightarrow>
     filter (\<lambda>a. attrRank a = k) (sortAttrs xs) = filter (\<lambda>a. attrRank a = k) xs"
  by (simp add: sortAttrs_sort_key sort_key_stable)

lemma sortAttrs_reorder:
  assumes perm: "mset xs' = mset xs"
    and ties: "\<And>k. filter (\<lambda>a. attrRank a = k) xs' = filter (\<lambda>a. attrRank a = k) xs"
    and num: "\<forall>a\<in>set xs. attrOrder (fst a) \<noteq> None"
  shows "sortAttrs xs' = sortAttrs xs"
proof -
  have "set xs' = set xs" using perm by (rule mset_eq_setD)
  with num have num': "\<forall>a\<in>set xs'. attrOrder (fst a) \<noteq> None" by simp
  have "sort_key attrRank xs = sort_key attrRank xs'"
  proof (rule properties_for_sort_key)
    show "mset (sort_key attrRank xs') = mset xs" using perm by simp
    show "sorted (map attrRank (sort_key attrRank xs'))" by simp
    fix k
    have "filter (\<lambda>x. attrRank k = attrRank x) (sort_key attrRank xs')
            = filter (\<lambda>x. attrRank x = attrRank k) (sort_key attrRank xs')"
      by (rule filter_cong) auto
    also have "\<dots> = filter (\<lambda>x. attrRank x = attrRank k) xs'" by (rule sort_key_stable)
    also have "\<dots> = filter (\<lambda>x. attrRank x = attrRank k) xs" by (rule ties)
    also have "\<dots> = filter (\<lambda>x. attrRank k = attrRank x) xs" by (rule filter_cong) auto
    finally show "filter (\<lambda>x. attrRank k = attrRank x) (sort_key attrRank xs')
            = filter (\<lambda>x. attrRank k = attrRank x) xs" .
  qed
  then show ?thesis by (simp add: sortAttrs_sort_key num num')
qed

lemma collectAttrs_rel:
  "\<forall>a\<in>set xs. fst a = ''rel'' \<Longrightarrow> collectAttrs tag xs = xs"
  by (induction tag xs rule: collectAttrs.induct)
     (auto simp: shouldSkipAttribute_def isSvgNoise_def SVG_NOISE_ATTRS_def)

lemma filter_rel_collectAttrs:
  "filter (\<lambda>a. fst a = ''rel'') (collectAttrs tag xs) = filter (\<lambda>a. fst a = ''rel'') xs"
proof -
  have "filter (\<lambda>a. (\<lambda>n. n = ''rel'') (fst a)) (collectAttrs tag xs)
          = collectAttrs tag (filter (\<lambda>a. (\<lambda>n. n = ''rel'') (fst a)) xs)"
    by (rule filter_collectAttrs)
  then show ?thesis by (simp add: collectAttrs_rel)
qed

lemma getAttribute_rel:
  assumes "filter (\<lambda>a. attrOrder (fst a) = Some 44) (collectAttrs tag xs')
             = filter (\<lambda>a. attrOrder (fst a) = Some 44) (collectAttrs tag xs)"
  shows "getAttribute xs' ''rel'' = getAttribute xs ''rel''"
proof -
  have "filter (\<lambda>a. fst a = ''rel'') ys = filter (\<lambda>a. attrOrder (fst a) = Some 44) ys"
    for ys :: "(string \<times> string) list"
    by (rule filter_cong) (simp_all add: attrOrder_rel)
  with assms have "filter (\<lambda>a. fst a = ''rel'') (collectAttrs tag xs')
                     = filter (\<lambda>a. fst a = ''rel'') (collectAttrs tag xs)"
    by simp
  then have "filter (\<lambda>a. fst a = ''rel'') xs' = filter (\<lambda>a. fst a = ''rel'') xs"
    by (simp only: filter_rel_collectAttrs)
  then show ?thesis
    unfolding getAttribute_def
    using map_of_filter_key [of xs' "''rel''"] map_of_filter_key [of xs "''rel''"] by simp
qed

lemma rank_filter_collect:
  "filter (\<lambda>a. attrRank a = k) (collectAttrs tag xs)
     = collectAttrs tag (filter (\<lambda>a. attrRank a = k) xs)"
proof -
  have "filter (\<lambda>a. (\<lambda>n. (case attrOrder n of Some m \<Rightarrow> m | None \<Rightarrow> 0) = k) (fst a)) (collectAttrs tag xs)
     = collectAttrs tag (filter (\<lambda>a. (\<lambda>n. (case attrOrder n of Some m \<Rightarrow> m | None \<Rightarrow> 0) = k) (fst a)) xs)"
    by (rule filter_collectAttrs)
  then show ?thesis by (simp add: attrRank_def)
qed

text \<open>
  How far the sort makes the text independent of the source order: re-ordering the
  source attributes of an element leaves the result of \<open>build\<close> unchanged, provided the
  kept attributes that share a rank are in the same relative order before and after, and
  no attribute is named like a member of \<open>Object.prototype\<close>.
\<close>

theorem attribute_reorder:
  assumes perm: "mset attrs' = mset attrs"
    and ties: "\<forall>k. filter (\<lambda>a. attrOrder (fst a) = Some k) (collectAttrs tag attrs')
                    = filter (\<lambda>a. attrOrder (fst a) = Some k) (collectAttrs tag attrs)"
    and num: "\<forall>a\<in>set attrs. fst a \<notin> set OBJECT_PROTOTYPE_KEYS"
  shows "fst (build (Element tag attrs' aref kids shadow) b)
           = fst (build (Element tag attrs aref kids shadow) b)"
proof -
  have cn: "\<forall>a\<in>set (collectAttrs tag attrs). attrOrder (fst a) \<noteq> None"
    using num by (rule collectAttrs_numeric)
  have cm: "mset (collectAttrs tag attrs') = mset (collectAttrs tag attrs)"
    using perm by (rule mset_collectAttrs)
  then have set_eq: "set (collectAttrs tag attrs') = set (collectAttrs tag attrs)"
    by (rule mset_eq_setD)
  have rank_some: "(attrRank a = k) = (attrOrder (fst a) = Some k)"
    if "a \<in> set (collectAttrs tag attrs)" for a k
    using cn that by (auto simp: attrRank_def)
  have ties_rank: "filter (\<lambda>a. attrRank a = k) (collectAttrs tag attrs')
                     = filter (\<lambda>a. attrRank a = k) (collectAttrs tag attrs)" for k
  proof -
    have "filter (\<lambda>a. attrRank a = k) (collectAttrs tag attrs')
            = filter (\<lambda>a. attrOrder (fst a) = Some k) (collectAttrs tag attrs')"
      by (rule filter_cong) (simp_all add: rank_some set_eq)
    also have "\<dots> = filter (\<lambda>a. attrOrder (fst a) = Some k) (collectAttrs tag attrs)"
      using ties by simp
    also have "\<dots> = filter (\<lambda>a. attrRank a = k) (collectAttrs tag attrs)"
      by (rule filter_cong) (simp_all add: rank_some)
    finally show ?thesis .
  qed
  have skip: "shouldSkipElement tag attrs' = shouldSkipElement tag attrs"
    using getAttribute_rel [of tag attrs' attrs] ties by (simp add: shouldSkipElement_def)
  have "sortAttrs (collectAttrs tag attrs') = sortAttrs (collectAttrs tag attrs)"
    using cm ties_rank cn by (rule sortAttrs_reorder)
  then have "openTagText (Element tag attrs' aref kids shadow)
               = openTagText (Element tag attrs aref kids shadow)"
    by (simp add: openTagText_def sortedAttrs_def)
  with skip show ?thesis by (simp add: build_eq)
qed

theorem attribute_reorder_witness:
  "fst (build (Element ''INPUT'' [(''aria-label'', ''q''), (''class'', ''a''), (''id'', ''x'')]
                 None [] None) new_AIDomBuilder)
   = fst (build (Element ''INPUT'' [(''class'', ''a''), (''id'', ''x''), (''aria-label'', ''q'')]
                 None [] None) new_AIDomBuilder)"
proof (rule attribute_reorder)
  show "mset [(''aria-label'', ''q''), (''class'', ''a''), (''id'', ''x'')]
          = mset [(''class'', ''a''), (''id'', ''x''), (''aria-label'', ''q'')]"
    by simp
  have o: "attrOrder ''aria-label'' = Some 5" "attrOrder ''class'' = Some 40"
    "attrOrder ''id'' = Some 0"
    by code_simp+
  have c: "collectAttrs ''INPUT'' [(''aria-label'', ''q''), (''class'', ''a''), (''id'', ''x'')]
             = [(''aria-label'', ''q''), (''class'', ''a''), (''id'', ''x'')]"
    "collectAttrs ''INPUT'' [(''class'', ''a''), (''id'', ''x''), (''aria-label'', ''q'')]
             = [(''class'', ''a''), (''id'', ''x''), (''aria-label'', ''q'')]"
    by code_simp+
  show "\<forall>k. filter (\<lambda>a. attrOrder (fst a) = Some k)
               (collectAttrs ''INPUT'' [(''aria-label'', ''q''), (''class'', ''a''), (''id'', ''x'')])
            = filter (\<lambda>a. attrOrder (fst a) = Some k)
               (collectAttrs ''INPUT'' [(''class'', ''a''), (''id'', ''x''), (''aria-label'', ''q'')])"
    unfolding c by (simp add: o)
  show "\<forall>a\<in>set [(''class'', ''a''), (''id'', ''x''), (''aria-label'', ''q'')].
          fst a \<notin> set OBJECT_PROTOTYPE_KEYS"
    by (simp add: OBJECT_PROTOTYPE_KEYS_def)
qed

text \<open>
  Claim C2 (attribute order stability). The comparator of the sort looks at ranks only
  and has no tie-break, so two attributes of equal rank are written in source order: the
  same button with \<open>aria-label\<close> and \<open>aria-hidden\<close> in either order gives two different
  texts.
\<close>

theorem equal_rank_attributes_follow_source_order:
  \<open>mset [(''aria-hidden'', ''true''), (''aria-label'', ''Close'')]
     = mset [(''aria-label'', ''Close''), (''aria-hidden'', ''true'')]
   \<and> html (fst (build (Element ''BUTTON'' [(''aria-label'', ''Close''), (''aria-hidden'', ''true'')]
                        None [] None) new_AIDomBuilder))
       = ''<button aria-label="Close" aria-hidden="true"></button>''
   \<and> html (fst (build (Element ''BUTTON'' [(''aria-hidden'', ''true''), (''aria-label'', ''Close'')]
                        None [] None) new_AIDomBuilder))
       = ''<button aria-hidden="true" aria-label="Close"></button>''
   \<and> html (fst (build (Element ''BUTTON'' [(''aria-label'', ''Close''), (''aria-hidden'', ''true'')]
                        None [] None) new_AIDomBuilder))
       \<noteq> html (fst (build (Element ''BUTTON'' [(''aria-hidden'', ''true''), (''aria-label'', ''Close'')]
                        None [] None) new_AIDomBuilder))\<close>
proof -
  have a: \<open>html (fst (build (Element ''BUTTON'' [(''aria-label'', ''Close''), (''aria-hidden'', ''true'')]
                        None [] None) new_AIDomBuilder))
       = ''<button aria-label="Close" aria-hidden="true"></button>''\<close>
    by code_simp
  have b: \<open>html (fst (build (Element ''BUTTON'' [(''aria-hidden'', ''true''), (''aria-label'', ''Close'')]
                        None [] None) new_AIDomBuilder))
       = ''<button aria-hidden="true" aria-label="Close"></button>''\<close>
    by code_simp
  have c: "mset [(''aria-hidden'', ''true''), (''aria-label'', ''Close'')]
     = mset [(''aria-label'', ''Close''), (''aria-hidden'', ''true'')]"
    by simp
  show ?thesis unfolding a b using c by simp
qed

lemma prefix_openTag:
  "\<not> shouldSkipElement (tagName el) (attributes el) \<Longrightarrow> prefix (openTagText el) (elementText el)"
  by (cases el) simp

text \<open>
  Claim C5 (canonical attribute ordering), as amended. When no attribute is named like a
  member of \<open>Object.prototype\<close>, the kept attributes are written in ascending rank,
  attributes of equal rank in source order, none of them named \<open>ref\<close>, followed by the
  stamped \<open>ref\<close> and the closing bracket. The ranks are: \<open>id\<close>, \<open>type\<close>, \<open>name\<close>, \<open>role\<close>;
  then \<open>aria-*\<close>; then \<open>href\<close>, \<open>src\<close>, \<open>action\<close>, \<open>method\<close>, \<open>for\<close>; then \<open>value\<close>,
  \<open>placeholder\<close>, \<open>required\<close>, \<open>disabled\<close>, \<open>checked\<close>, \<open>selected\<close>, \<open>multiple\<close>, \<open>readonly\<close>;
  then every name outside the table; then \<open>class\<close>, \<open>alt\<close>, \<open>title\<close>, \<open>target\<close>, \<open>rel\<close>.
\<close>

theorem attribute_order:
  assumes num: "\<forall>a\<in>set (attributes el). fst a \<notin> set OBJECT_PROTOTYPE_KEYS"
  shows
    "sorted (map attrRank (sortedAttrs el))
     \<and> (\<forall>k. filter (\<lambda>a. attrRank a = k) (sortedAttrs el)
              = filter (\<lambda>a. attrRank a = k) (collectAttrs (tagName el) (attributes el)))
     \<and> ''ref'' \<notin> fst ` set (sortedAttrs el)
     \<and> (\<not> shouldSkipElement (tagName el) (attributes el) \<longrightarrow>
          prefix (''<'' @ toLowerCase (tagName el) @ concat (map attrText (sortedAttrs el))
                    @ refText (ariaRef el) @ ''>'')
                 (html (fst (build el b))))
     \<and> map attrOrder
          [''id'', ''type'', ''name'', ''role'',
           ''href'', ''src'', ''action'', ''method'', ''for'',
           ''value'', ''placeholder'', ''required'', ''disabled'', ''checked'', ''selected'',
           ''multiple'', ''readonly'',
           ''class'', ''alt'', ''title'', ''target'', ''rel'']
         = map Some [0, 1, 2, 3, 10, 11, 12, 13, 14, 20, 21, 22, 23, 24, 25, 26, 27,
                     40, 41, 42, 43, 44]
     \<and> (\<forall>n. n \<notin> fst ` set ATTR_ORDER \<longrightarrow> n \<notin> set OBJECT_PROTOTYPE_KEYS \<longrightarrow>
            attrOrder n = Some (if prefix ''aria-'' n then 5 else 30))"
proof (intro conjI)
  have cn: "\<forall>a\<in>set (collectAttrs (tagName el) (attributes el)). attrOrder (fst a) \<noteq> None"
    using num by (rule collectAttrs_numeric)
  show "sorted (map attrRank (sortedAttrs el))"
    unfolding sortedAttrs_def using cn by (rule sorted_sortAttrs)
  show "\<forall>k. filter (\<lambda>a. attrRank a = k) (sortedAttrs el)
              = filter (\<lambda>a. attrRank a = k) (collectAttrs (tagName el) (attributes el))"
    unfolding sortedAttrs_def using stable_sortAttrs [OF cn] by simp
  show "''ref'' \<notin> fst ` set (sortedAttrs el)"
    by (simp add: sortedAttrs_def set_sortAttrs ref_notin_collectAttrs)
  show "\<not> shouldSkipElement (tagName el) (attributes el) \<longrightarrow>
          prefix (''<'' @ toLowerCase (tagName el) @ concat (map attrText (sortedAttrs el))
                    @ refText (ariaRef el) @ ''>'')
                 (html (fst (build el b)))"
    using prefix_openTag [of el] by (simp add: build_eq openTagText_def)
  show "map attrOrder
          [''id'', ''type'', ''name'', ''role'',
           ''href'', ''src'', ''action'', ''method'', ''for'',
           ''value'', ''placeholder'', ''required'', ''disabled'', ''checked'', ''selected'',
           ''multiple'', ''readonly'',
           ''class'', ''alt'', ''title'', ''target'', ''rel'']
         = map Some [0, 1, 2, 3, 10, 11, 12, 13, 14, 20, 21, 22, 23, 24, 25, 26, 27,
                     40, 41, 42, 43, 44]"
    by code_simp
  show "\<forall>n. n \<notin> fst ` set ATTR_ORDER \<longrightarrow> n \<notin> set OBJECT_PROTOTYPE_KEYS \<longrightarrow>
            attrOrder n = Some (if prefix ''aria-'' n then 5 else 30)"
    by (auto simp: attrOrder_def map_of_eq_None_iff [symmetric] simp del: map_of_eq_None_iff split: option.splits)
qed

theorem attribute_order_counterexample:
  \<open>html (fst (build (Element ''DIV'' [(''class'', ''note''), (''lang'', ''en'')] None [] None)
                 new_AIDomBuilder))
     = ''<div lang="en" class="note"></div>''
   \<and> \<not> sorted (map claimed_order
         (map fst (sortedAttrs (Element ''DIV'' [(''class'', ''note''), (''lang'', ''en'')] None [] None))))\<close>
proof -
  have a: \<open>html (fst (build (Element ''DIV'' [(''class'', ''note''), (''lang'', ''en'')] None [] None)
                 new_AIDomBuilder))
     = ''<div lang="en" class="note"></div>''\<close>
    by code_simp
  have b: "map fst (sortedAttrs (Element ''DIV'' [(''class'', ''note''), (''lang'', ''en'')] None [] None))
             = [''lang'', ''class'']"
    by code_simp
  have c: "claimed_order ''lang'' = 17" "claimed_order ''class'' = 16" by code_simp+
  show ?thesis unfolding a b by (simp add: c)
qed

theorem attribute_order_witness:
  \<open>sorted (map attrRank (sortedAttrs
      (Element ''INPUT'' [(''value'', ''''), (''class'', ''f''), (''lang'', ''en''),
                          (''aria-required'', ''true''), (''id'', ''first-name''), (''ref'', ''zz'')]
         (Some ''e14'') [] None)))
   \<and> html (fst (build
      (Element ''INPUT'' [(''value'', ''''), (''class'', ''f''), (''lang'', ''en''),
                          (''aria-required'', ''true''), (''id'', ''first-name''), (''ref'', ''zz'')]
         (Some ''e14'') [] None) new_AIDomBuilder))
     = ''<input id="first-name" aria-required="true" value="" lang="en" class="f" ref="e14">''\<close>
proof -
  let ?el = "Element ''INPUT'' [(''value'', ''''), (''class'', ''f''), (''lang'', ''en''),
                          (''aria-required'', ''true''), (''id'', ''first-name''), (''ref'', ''zz'')]
         (Some ''e14'') [] None"
  have h: "\<forall>a\<in>set (attributes ?el). fst a \<notin> set OBJECT_PROTOTYPE_KEYS"
    by (simp add: OBJECT_PROTOTYPE_KEYS_def)
  from attribute_order [OF h, of new_AIDomBuilder]
  have s: "sorted (map attrRank (sortedAttrs ?el))" by (rule conjunct1)
  have o: \<open>html (fst (build ?el new_AIDomBuilder))
     = ''<input id="first-name" aria-required="true" value="" lang="en" class="f" ref="e14">''\<close>
    by code_simp
  from s o show ?thesis by (rule conjI)
qed

section \<open>The stitcher\<close>

text \<open>
  Claim C4 (frame stitching). On the payment page the frame of \<open>e3\<close> resolves and its
  document serializes to a body with the card number field, yet the stitched text holds
  no marker and no child text: the text searched for is the \<open>iframe\<close> element with the
  \<open>ref\<close> attribute alone, and this element also has \<open>id\<close> and \<open>src\<close>. An \<open>iframe\<close>
  element without attributes is stitched: the child text stands between the two markers.
\<close>

theorem stitch_misses_frame_with_attribute:
  \<open>contentFrame (mainFrame payment_page) ''e3'' = Inr card_frame
   \<and> evaluate card_frame
       = Inr \<lparr>html = ''<body><input type="text" name="card" placeholder="Card number" ref="f1e2"></body>'',
               iframeRefs = []\<rparr>
   \<and> extractFullDom payment_page
       = Inr (''<body><h1 ref="e2">Payment</h1>''
              @ ''<iframe id="payment-frame" src="http://localhost/child" ref="e3"></iframe>''
              @ ''<button ref="e4">Pay</button></body>'')
   \<and> extractFullDom page_without_src
       = Inr (''<body><iframe ref="e2">\<newline><!-- BEGIN IFRAME e2 -->\<newline>''
              @ ''<body><button ref="f1e2">Submit</button></body>''
              @ ''\<newline><!-- END IFRAME e2 -->\<newline></iframe></body>'')\<close>
proof (intro conjI)
  show "contentFrame (mainFrame payment_page) ''e3'' = Inr card_frame"
    by (simp add: payment_page_def contentFrame_def)
  show \<open>evaluate card_frame
       = Inr \<lparr>html = ''<body><input type="text" name="card" placeholder="Card number" ref="f1e2"></body>'',
               iframeRefs = []\<rparr>\<close>
    by code_simp
  show \<open>extractFullDom payment_page
       = Inr (''<body><h1 ref="e2">Payment</h1>''
              @ ''<iframe id="payment-frame" src="http://localhost/child" ref="e3"></iframe>''
              @ ''<button ref="e4">Pay</button></body>'')\<close>
    by code_simp
  show \<open>extractFullDom page_without_src
       = Inr (''<body><iframe ref="e2">\<newline><!-- BEGIN IFRAME e2 -->\<newline>''
              @ ''<body><button ref="f1e2">Submit</button></body>''
              @ ''\<newline><!-- END IFRAME e2 -->\<newline></iframe></body>'')\<close>
    by code_simp
qed

text \<open>
  Two more properties of the same code: frames are stitched two levels deep and no
  further, and \<open>$$\<close> in the text of a child frame reaches the stitched text as a single \<open>$\<close>.
\<close>

lemma stitch_stops_at_second_level:
  \<open>extractFullDom three_levels
     = Inr (''<body><iframe ref="e2">\<newline><!-- BEGIN IFRAME e2 -->\<newline>''
            @ ''<body><iframe ref="f1e1">\<newline><!-- BEGIN IFRAME f1e1 -->\<newline>''
            @ ''<body><iframe ref="f2e1"></iframe></body>''
            @ ''\<newline><!-- END IFRAME f1e1 -->\<newline></iframe></body>''
            @ ''\<newline><!-- END IFRAME e2 -->\<newline></iframe></body>'')\<close>
  by code_simp

lemma stitch_expands_dollar_patterns:
  \<open>evaluate (Frame (Some (Element ''BODY'' [] None [TextNode ''US$$ and R&D''] None)) [])
     = Inr \<lparr>html = ''<body>US$$ and R&amp;D</body>'', iframeRefs = []\<rparr>
   \<and> extractFullDom price_page
     = Inr (''<body><iframe ref="e2">\<newline><!-- BEGIN IFRAME e2 -->\<newline>''
            @ ''<body>US$ and R&amp;D</body>''
            @ ''\<newline><!-- END IFRAME e2 -->\<newline></iframe></body>'')\<close>
  by (intro conjI; code_simp)

text \<open>
  Claim C7 (frame resolution failure tolerance). Inside the frame of \<open>e2\<close> the nested frame
  \<open>f1e1\<close> cannot be entered and the nested frame \<open>f1e3\<close> can. The failure of \<open>f1e1\<close> ends
  the inner loop, so \<open>f1e3\<close>, which comes after it, is left unexpanded; with the two
  elements in the other order \<open>f1e3\<close> is expanded.
\<close>

theorem nested_failure_skips_later_frames:
  \<open>contentFrame two_nested ''f1e1'' = Inl FrameUnavailable
   \<and> contentFrame two_nested ''f1e3'' = Inr submit_frame
   \<and> extractFullDom (page_nested two_nested)
       = Inr (''<body><iframe ref="e2">\<newline><!-- BEGIN IFRAME e2 -->\<newline>''
              @ ''<body><iframe ref="f1e1"></iframe><iframe ref="f1e3"></iframe></body>''
              @ ''\<newline><!-- END IFRAME e2 -->\<newline></iframe></body>'')
   \<and> extractFullDom (page_nested two_nested_swapped)
       = Inr (''<body><iframe ref="e2">\<newline><!-- BEGIN IFRAME e2 -->\<newline>''
              @ ''<body><iframe ref="f1e3">\<newline><!-- BEGIN IFRAME f1e3 -->\<newline>''
              @ ''<body><button ref="f1e2">Submit</button></body>''
              @ ''\<newline><!-- END IFRAME f1e3 -->\<newline></iframe><iframe ref="f1e1"></iframe></body>''
              @ ''\<newline><!-- END IFRAME e2 -->\<newline></iframe></body>'')\<close>
proof (intro conjI)
  show "contentFrame two_nested ''f1e1'' = Inl FrameUnavailable"
    by (simp add: two_nested_def contentFrame_def)
  show "contentFrame two_nested ''f1e3'' = Inr submit_frame"
    by (simp add: two_nested_def contentFrame_def)
  show \<open>extractFullDom (page_nested two_nested)
       = Inr (''<body><iframe ref="e2">\<newline><!-- BEGIN IFRAME e2 -->\<newline>''
              @ ''<body><iframe ref="f1e1"></iframe><iframe ref="f1e3"></iframe></body>''
              @ ''\<newline><!-- END IFRAME e2 -->\<newline></iframe></body>'')\<close>
    by code_simp
  show \<open>extractFullDom (page_nested two_nested_swapped)
       = Inr (''<body><iframe ref="e2">\<newline><!-- BEGIN IFRAME e2 -->\<newline>''
              @ ''<body><iframe ref="f1e3">\<newline><!-- BEGIN IFRAME f1e3 -->\<newline>''
              @ ''<body><button ref="f1e2">Submit</button></body>''
              @ ''\<newline><!-- END IFRAME f1e3 -->\<newline></iframe><iframe ref="f1e1"></iframe></body>''
              @ ''\<newline><!-- END IFRAME e2 -->\<newline></iframe></body>'')\<close>
    by code_simp
qed

text \<open>
  For a ref of the main frame the failure is dropped and the loop goes on with the refs
  that follow; \<open>extractFullDom\<close> fails only when the main frame cannot be evaluated.
\<close>

lemma tryFrame_unavailable:
  "contentFrame main ref = Inl e \<Longrightarrow> tryFrame main ref cur = (Some e, cur)"
  "contentFrame main ref = Inr fr \<Longrightarrow> evaluate fr = Inl e \<Longrightarrow> tryFrame main ref cur = (Some e, cur)"
  by (simp_all add: tryFrame_def)

lemma stitchLoop_append:
  "stitchLoop main (xs @ ys) cur = stitchLoop main ys (stitchLoop main xs cur)"
  by (induction xs arbitrary: cur) simp_all

lemma top_level_failure_tolerated:
  assumes "contentFrame main ref = Inl e
           \<or> (\<exists>fr. contentFrame main ref = Inr fr \<and> evaluate fr = Inl e)"
  shows "stitchLoop main (seen @ ref # rest) cur = stitchLoop main rest (stitchLoop main seen cur)"
  using assms by (auto simp: stitchLoop_append tryFrame_unavailable)

lemma extractFullDom_total:
  "evaluate main = Inr m \<Longrightarrow> \<exists>h. extractFullDom (Page main) = Inr h"
  by (simp add: extractFullDom_def)

section \<open>The session\<close>

lemma ensureStateDir_keeps:
  assumes "ensureStateDir lib c s = (out, s1, t)"
  shows "previousDom s1 = previousDom s" and "diffCounter s1 = diffCounter s"
    and "filter is_write t = []" and "ExtractFullDom \<notin> set t"
    and "\<And>d. out = Returned d \<Longrightarrow> truthy d \<Longrightarrow> stateDir s1 = d"
    and "\<And>x. out = Threw x \<Longrightarrow> x = FsError"
  using assms
  by (auto simp: ensureStateDir_def mkdirs_def Let_def is_write_def truthy_def str_of_def
           split: if_splits option.splits)

lemma ensureStateDir_no_workspace:
  "\<not> truthy (stateDir s) \<Longrightarrow> no_workspace c \<Longrightarrow> ensureStateDir lib c s = (Returned None, s, [])"
  by (auto simp: ensureStateDir_def no_workspace_def Let_def)

lemma update_no_workspace:
  "\<not> truthy (stateDir s) \<Longrightarrow> no_workspace c \<Longrightarrow> update lib c s = (Returned None, s, [])"
  by (simp add: update_def ensureStateDir_no_workspace truthy_def str_of_def)

lemma writeState_cases:
  assumes "writeState lib c s dir domStr = (out, s2, t)"
  shows "stateDir s2 = stateDir s"
    and "\<And>e. out = Threw e \<Longrightarrow> previousDom s2 = previousDom s"
    and "out \<noteq> Returned None"
    and "\<And>r. out = Returned (Some r) \<Longrightarrow>
           previousDom s2 = Some domStr
           \<and> (diffPath r \<noteq> None) =
               (\<exists>prev. previousDom s = Some prev
                  \<and> str_includes (createPatch lib ''dom.html'' prev domStr) ''@@'')
           \<and> diffCounter s2 = (if diffPath r \<noteq> None then diffCounter s + 1 else diffCounter s)
           \<and> (\<forall>p. diffPath r = Some p \<longrightarrow>
                  p = path_join lib [dir, ''diffs'',
                        formatDiffName (diffCounter s2) (toolName c) (toolArgs c)])
           \<and> filter is_write t =
               [WriteFile (domPath r) domStr, WriteFile (ariaPath r) (ariaSnapshot c)]
               @ (case diffPath r of None \<Rightarrow> [] | Some p \<Rightarrow> [WriteFile p (str_of (diff r))])"
proof -
  have inc: "str_includes p ''@@'' \<Longrightarrow> p \<noteq> []" for p
    by (cases p) (auto simp: str_includes_def)
  show "stateDir s2 = stateDir s"
    using assms
    by (auto simp: writeState_def Let_def split: if_splits option.splits)
  show "\<And>e. out = Threw e \<Longrightarrow> previousDom s2 = previousDom s"
    using assms
    by (auto simp: writeState_def Let_def split: if_splits option.splits)
  show "out \<noteq> Returned None"
    using assms
    by (auto simp: writeState_def Let_def split: if_splits option.splits)
  show "\<And>r. out = Returned (Some r) \<Longrightarrow>
           previousDom s2 = Some domStr
           \<and> (diffPath r \<noteq> None) =
               (\<exists>prev. previousDom s = Some prev
                  \<and> str_includes (createPatch lib ''dom.html'' prev domStr) ''@@'')
           \<and> diffCounter s2 = (if diffPath r \<noteq> None then diffCounter s + 1 else diffCounter s)
           \<and> (\<forall>p. diffPath r = Some p \<longrightarrow>
                  p = path_join lib [dir, ''diffs'',
                        formatDiffName (diffCounter s2) (toolName c) (toolArgs c)])
           \<and> filter is_write t =
               [WriteFile (domPath r) domStr, WriteFile (ariaPath r) (ariaSnapshot c)]
               @ (case diffPath r of None \<Rightarrow> [] | Some p \<Rightarrow> [WriteFile p (str_of (diff r))])"
    using assms
    by (auto simp: writeState_def Let_def truthy_def str_of_def is_write_def
             split: if_splits option.splits dest: inc)
qed

lemma update_threw_or_none:
  assumes "update lib c s = (out, s', t)"
  shows "out = Returned None \<Longrightarrow>
           previousDom s' = previousDom s \<and> diffCounter s' = diffCounter s \<and> filter is_write t = []"
    and "extractFullDom (page c) = Inl e \<Longrightarrow>
           previousDom s' = previousDom s \<and> diffCounter s' = diffCounter s
           \<and> filter is_write t = []
           \<and> (out = Returned None \<or> (out = Threw FsError \<and> ExtractFullDom \<notin> set t))"
proof -
  obtain o1 s1 t1 where e1: "ensureStateDir lib c s = (o1, s1, t1)"
    by (cases "ensureStateDir lib c s") auto
  note k = ensureStateDir_keeps [OF e1]
  show "out = Returned None \<Longrightarrow>
           previousDom s' = previousDom s \<and> diffCounter s' = diffCounter s \<and> filter is_write t = []"
  proof -
    assume none: "out = Returned None"
    show ?thesis
    proof (cases o1)
      case (Threw x)
      with assms e1 none show ?thesis by (simp add: update_def)
    next
      case (Returned d)
      show ?thesis
      proof (cases "truthy d")
        case False
        with assms e1 Returned k show ?thesis by (simp add: update_def)
      next
        case True
        show ?thesis
        proof (cases "extractFullDom (page c)")
          case (Inl x)
          with assms e1 Returned True k show ?thesis by (auto simp: update_def is_write_def)
        next
          case (Inr raw)
          obtain o2 s2 t2 where w: "writeState lib c s1 (str_of d) (prettyPrintHtml lib raw) = (o2, s2, t2)"
            by (cases "writeState lib c s1 (str_of d) (prettyPrintHtml lib raw)") auto
          from assms e1 Returned True Inr w have "out = o2" by (simp add: update_def)
          with writeState_cases(3) [OF w] none show ?thesis by simp
        qed
      qed
    qed
  qed
  show "extractFullDom (page c) = Inl e \<Longrightarrow>
           previousDom s' = previousDom s \<and> diffCounter s' = diffCounter s
           \<and> filter is_write t = []
           \<and> (out = Returned None \<or> (out = Threw FsError \<and> ExtractFullDom \<notin> set t))"
  proof -
    assume f: "extractFullDom (page c) = Inl e"
    show ?thesis
    proof (cases o1)
      case (Threw x)
      with assms e1 k show ?thesis by (auto simp: update_def)
    next
      case (Returned d)
      with assms e1 k f show ?thesis by (cases "truthy d") (auto simp: update_def is_write_def)
    qed
  qed
qed

lemma update_result:
  assumes "update lib c s = (out, s', t)" and "out = Returned (Some r)"
  shows "\<exists>raw. extractFullDom (page c) = Inr raw \<and> previousDom s' = Some (prettyPrintHtml lib raw)"
    and "(diffPath r \<noteq> None) =
           (\<exists>prev. previousDom s = Some prev
              \<and> str_includes (createPatch lib ''dom.html'' prev (str_of (previousDom s'))) ''@@'')"
    and "diffCounter s' = (if diffPath r \<noteq> None then diffCounter s + 1 else diffCounter s)"
    and "\<forall>p. diffPath r = Some p \<longrightarrow>
           p = path_join lib [str_of (stateDir s'), ''diffs'',
                 formatDiffName (diffCounter s') (toolName c) (toolArgs c)]"
    and "filter is_write t =
           [WriteFile (domPath r) (str_of (previousDom s')), WriteFile (ariaPath r) (ariaSnapshot c)]
           @ (case diffPath r of None \<Rightarrow> [] | Some p \<Rightarrow> [WriteFile p (str_of (diff r))])"
proof -
  obtain o1 s1 t1 where e1: "ensureStateDir lib c s = (o1, s1, t1)"
    by (cases "ensureStateDir lib c s") auto
  note k = ensureStateDir_keeps [OF e1]
  from assms e1 obtain d where o1: "o1 = Returned d"
    by (cases o1) (auto simp: update_def)
  from assms e1 o1 have td: "truthy d"
    by (cases "truthy d") (auto simp: update_def)
  from assms e1 o1 td obtain raw where raw: "extractFullDom (page c) = Inr raw"
    by (cases "extractFullDom (page c)") (auto simp: update_def)
  obtain o2 s2 t2 where w: "writeState lib c s1 (str_of d) (prettyPrintHtml lib raw) = (o2, s2, t2)"
    by (cases "writeState lib c s1 (str_of d) (prettyPrintHtml lib raw)") auto
  from assms e1 o1 td raw w have eq: "out = o2" "s' = s2" "t = t1 @ [ExtractFullDom] @ t2"
    by (simp_all add: update_def)
  from eq assms have o2: "o2 = Returned (Some r)" by simp
  note ws = writeState_cases(4) [OF w o2]
  have dir: "stateDir s' = d"
    using writeState_cases(1) [OF w] k(5) [OF o1 td] eq by simp
  have tw: "filter is_write t = filter is_write t2"
    using eq k(3) by (simp add: is_write_def)
  have pd: "str_of (previousDom s') = prettyPrintHtml lib raw"
    using ws eq by (simp add: str_of_def)
  show "\<exists>raw. extractFullDom (page c) = Inr raw \<and> previousDom s' = Some (prettyPrintHtml lib raw)"
    using raw ws eq by simp
  show "(diffPath r \<noteq> None) =
           (\<exists>prev. previousDom s = Some prev
              \<and> str_includes (createPatch lib ''dom.html'' prev (str_of (previousDom s'))) ''@@'')"
    using ws k(1) by (simp add: pd)
  show "diffCounter s' = (if diffPath r \<noteq> None then diffCounter s + 1 else diffCounter s)"
    using ws k(2) eq by simp
  show "\<forall>p. diffPath r = Some p \<longrightarrow>
           p = path_join lib [str_of (stateDir s'), ''diffs'',
                 formatDiffName (diffCounter s') (toolName c) (toolArgs c)]"
    using ws eq dir by (auto split: if_splits)
  show "filter is_write t =
           [WriteFile (domPath r) (str_of (previousDom s')), WriteFile (ariaPath r) (ariaSnapshot c)]
           @ (case diffPath r of None \<Rightarrow> [] | Some p \<Rightarrow> [WriteFile p (str_of (diff r))])"
    using ws by (simp add: tw pd)
qed

lemma run_updates_step:
  "st \<in> set (run_updates lib s cs) \<Longrightarrow>
     update lib (call st) (state_before st) = (outcome st, state_after st, effects st)"
proof (induction cs arbitrary: s)
  case Nil
  then show ?case by simp
next
  case (Cons c cs)
  obtain out s1 t where u: "update lib c s = (out, s1, t)"
    by (cases "update lib c s") auto
  from Cons.prems u have
    "st = \<lparr>state_before = s, call = c, outcome = out, state_after = s1, effects = t\<rparr>
     \<or> st \<in> set (run_updates lib s1 cs)"
    by simp
  then show ?case
  proof
    assume "st = \<lparr>state_before = s, call = c, outcome = out, state_after = s1, effects = t\<rparr>"
    with u show ?thesis by simp
  next
    assume "st \<in> set (run_updates lib s1 cs)"
    then show ?thesis by (rule Cons.IH)
  qed
qed

lemma run_no_workspace:
  "\<not> truthy (stateDir s) \<Longrightarrow> \<forall>c\<in>set cs. no_workspace c \<Longrightarrow>
     run_updates lib s cs =
       map (\<lambda>c. \<lparr>state_before = s, call = c, outcome = Returned None,
                     state_after = s, effects = []\<rparr>) cs"
  by (induction cs) (simp_all add: update_no_workspace)

text \<open>
  Claim C8 (no workspace). In a session that has no directory cached, every call that has
  neither both environment variables nor explicit roots returns \<open>None\<close> with no effect at
  all (no directory made, no call of \<open>extractFullDom\<close>, no file written) and leaves the
  state as it was.
\<close>

theorem no_workspace_short_circuit:
  assumes "\<not> truthy (stateDir s)" and "\<forall>c\<in>set cs. no_workspace c"
  shows "run_updates lib s cs =
           map (\<lambda>c. \<lparr>state_before = s, call = c, outcome = Returned None,
                         state_after = s, effects = []\<rparr>) cs"
  using assms by (rule run_no_workspace)

theorem no_workspace_short_circuit_witness:
  "run_updates plain_library new_DomState
     [click_call (text_page ''a'') False, click_call (text_page ''b'') False]
   = [\<lparr>state_before = new_DomState, call = click_call (text_page ''a'') False,
        outcome = Returned None, state_after = new_DomState, effects = []\<rparr>,
      \<lparr>state_before = new_DomState, call = click_call (text_page ''b'') False,
        outcome = Returned None, state_after = new_DomState, effects = []\<rparr>]"
proof -
  have a: "\<not> truthy (stateDir new_DomState)"
    by (simp add: new_DomState_def truthy_def str_of_def)
  have b: "\<forall>c\<in>set [click_call (text_page ''a'') False, click_call (text_page ''b'') False].
             no_workspace c"
    by (simp add: no_workspace_def click_call_def truthy_def str_of_def)
  from no_workspace_short_circuit [OF a b, of plain_library] show ?thesis by simp
qed

text \<open>
  Claim C6 (extraction failure). When \<open>extractFullDom\<close> fails on the page of a call,
  \<open>update\<close> leaves \<open>previousDom\<close> and \<open>diffCounter\<close> as they were, writes no file and
  returns \<open>None\<close>; the one other outcome is that making the directory threw, before
  \<open>extractFullDom\<close> was called at all.
\<close>

theorem extraction_failure_keeps_state:
  assumes "extractFullDom (page c) = Inl e" and "update lib c s = (out, s', t)"
  shows "previousDom s' = previousDom s \<and> diffCounter s' = diffCounter s
         \<and> filter is_write t = []
         \<and> (out = Returned None \<or> (out = Threw FsError \<and> ExtractFullDom \<notin> set t))"
  using update_threw_or_none(2) [OF assms(2) assms(1)] .

theorem extraction_failure_keeps_state_witness:
  "update plain_library (click_call PageGone True)
     \<lparr>previousDom = Some ''<body>old</body>'', diffCounter = 3, stateDir = Some ''/w/state''\<rparr>
   = (Returned None,
      \<lparr>previousDom = Some ''<body>old</body>'', diffCounter = 3, stateDir = Some ''/w/state''\<rparr>,
      [ExtractFullDom])"
proof -
  let ?s = "\<lparr>previousDom = Some ''<body>old</body>'', diffCounter = 3, stateDir = Some ''/w/state''\<rparr>"
  obtain out s' t where u: "update plain_library (click_call PageGone True) ?s = (out, s', t)"
    by (cases "update plain_library (click_call PageGone True) ?s") auto
  have f: "extractFullDom (page (click_call PageGone True)) = Inl TargetClosed"
    by (simp add: click_call_def extractFullDom_def)
  have e: "ensureStateDir plain_library (click_call PageGone True) ?s = (Returned (Some ''/w/state''), ?s, [])"
    by (simp add: ensureStateDir_def truthy_def str_of_def)
  from u f e have t: "t = [ExtractFullDom]" and s: "stateDir s' = stateDir ?s"
    by (auto simp: update_def truthy_def str_of_def)
  from extraction_failure_keeps_state [OF f u] t
  have "previousDom s' = previousDom ?s" "diffCounter s' = diffCounter ?s" "out = Returned None"
    by simp_all
  with s have "s' = ?s" by (cases s') simp
  with u t \<open>out = Returned None\<close> show ?thesis by simp
qed

lemma diff_numbers_from:
  assumes "\<forall>st\<in>set (run_updates lib s cs). \<not> threw st"
  shows "diff_numbers (run_updates lib s cs)
           = [Suc (diffCounter s) ..< Suc (diffCounter s) + length (diff_numbers (run_updates lib s cs))]"
  using assms
proof (induction cs arbitrary: s)
  case Nil
  show ?case by (simp add: diff_numbers_def)
next
  case (Cons c cs)
  obtain out s1 t where u: "update lib c s = (out, s1, t)"
    by (cases "update lib c s") auto
  let ?st = "\<lparr>state_before = s, call = c, outcome = out, state_after = s1, effects = t\<rparr>"
  have run: "run_updates lib s (c # cs) = ?st # run_updates lib s1 cs"
    using u by simp
  from Cons.prems have "\<forall>st\<in>set (?st # run_updates lib s1 cs). \<not> threw st"
    by (simp only: run)
  then have nt: "\<not> threw ?st"
    and rest: "\<forall>st\<in>set (run_updates lib s1 cs). \<not> threw st" by simp_all
  note IH = Cons.IH [OF rest]
  define D where "D = diff_numbers (run_updates lib s1 cs)"
  define k where "k = diffCounter s"
  have IH': "D = [Suc (diffCounter s1) ..< Suc (diffCounter s1) + length D]"
    using IH by (simp only: D_def)
  show ?case
  proof (cases "wrote_diff ?st")
    case True
    then obtain r where r: "out = Returned (Some r)" "diffPath r \<noteq> None"
      by (auto simp: wrote_diff_def split: outcome.splits option.splits)
    from update_result(3) [OF u r(1)] r(2) have c1: "diffCounter s1 = Suc k"
      by (simp add: k_def)
    have dn: "diff_numbers (run_updates lib s (c # cs)) = Suc k # D"
      unfolding run using True by (simp add: diff_numbers_def D_def c1)
    have e1: "[Suc k ..< Suc (Suc k) + length D] = Suc k # [Suc (Suc k) ..< Suc (Suc k) + length D]"
      by (rule upt_conv_Cons) simp
    have e2: "[Suc (Suc k) ..< Suc (Suc k) + length D] = D"
      using IH' by (simp only: c1)
    have e3: "Suc k + length (Suc k # D) = Suc (Suc k) + length D" by simp
    show ?thesis by (simp only: dn k_def [symmetric] e3 e1 e2)
  next
    case False
    have c0: "diffCounter s1 = k"
    proof (cases out)
      case (Threw x)
      with nt show ?thesis by (simp add: threw_def)
    next
      case (Returned ro)
      show ?thesis
      proof (cases ro)
        case None
        with Returned update_threw_or_none(1) [OF u] show ?thesis by (simp add: k_def)
      next
        case (Some r)
        with Returned False have "diffPath r = None" by (simp add: wrote_diff_def)
        with update_result(3) [OF u] Returned Some show ?thesis by (simp add: k_def)
      qed
    qed
    have dn: "diff_numbers (run_updates lib s (c # cs)) = D"
      unfolding run using False by (simp add: diff_numbers_def D_def)
    show ?thesis using IH' by (simp only: dn c0 k_def [symmetric])
  qed
qed

text \<open>
  Sessions without a failure. Let \<open>createPatch\<close> put a hunk header into the patch exactly
  when the two texts differ, and take a session from a new state in which no call of
  \<open>update\<close> threw. Then a call that returns a result has a diff path exactly when there
  was a previous text and the new text differs from it, and it writes the DOM file, the
  tree file and, exactly in that case, the diff file, named by the counter; a call that
  returns \<open>None\<close> writes nothing; the counters of the diff files are 1, 2, 3 and so on
  without a gap; and a call made when there is no previous text writes no diff file.
\<close>

theorem diff_sequencing:
  assumes contract: "\<forall>a b. str_includes (createPatch lib ''dom.html'' a b) ''@@'' = (a \<noteq> b)"
    and ok: "\<forall>st\<in>set (run_updates lib new_DomState cs). \<not> threw st"
  shows
    "(\<forall>st\<in>set (run_updates lib new_DomState cs). \<forall>r. outcome st = Returned (Some r) \<longrightarrow>
        (diffPath r \<noteq> None) =
          (\<exists>prev. previousDom (state_before st) = Some prev
             \<and> previousDom (state_after st) \<noteq> Some prev)
        \<and> filter is_write (effects st) =
            [WriteFile (domPath r) (str_of (previousDom (state_after st))),
             WriteFile (ariaPath r) (ariaSnapshot (call st))]
            @ (case diffPath r of None \<Rightarrow> [] | Some p \<Rightarrow> [WriteFile p (str_of (diff r))])
        \<and> (\<forall>p. diffPath r = Some p \<longrightarrow>
              p = path_join lib [str_of (stateDir (state_after st)), ''diffs'',
                    formatDiffName (diffCounter (state_after st))
                      (toolName (call st)) (toolArgs (call st))]))
     \<and> (\<forall>st\<in>set (run_updates lib new_DomState cs).
           outcome st = Returned None \<longrightarrow> filter is_write (effects st) = [])
     \<and> diff_numbers (run_updates lib new_DomState cs)
         = [1 ..< Suc (length (diff_numbers (run_updates lib new_DomState cs)))]
     \<and> (\<forall>st\<in>set (run_updates lib new_DomState cs).
           previousDom (state_before st) = None \<longrightarrow> \<not> wrote_diff st)"
proof (intro conjI ballI allI impI)
  fix st r
  assume st: "st \<in> set (run_updates lib new_DomState cs)" and r: "outcome st = Returned (Some r)"
  note u = run_updates_step [OF st]
  from update_result(1) [OF u r] obtain raw
    where pd: "previousDom (state_after st) = Some (prettyPrintHtml lib raw)" by blast
  show "(diffPath r \<noteq> None) =
          (\<exists>prev. previousDom (state_before st) = Some prev
             \<and> previousDom (state_after st) \<noteq> Some prev)"
    using update_result(2) [OF u r] contract by (auto simp: pd str_of_def)
  show "filter is_write (effects st) =
            [WriteFile (domPath r) (str_of (previousDom (state_after st))),
             WriteFile (ariaPath r) (ariaSnapshot (call st))]
            @ (case diffPath r of None \<Rightarrow> [] | Some p \<Rightarrow> [WriteFile p (str_of (diff r))])"
    by (rule update_result(5) [OF u r])
  fix p assume "diffPath r = Some p"
  with update_result(4) [OF u r]
  show "p = path_join lib [str_of (stateDir (state_after st)), ''diffs'',
                    formatDiffName (diffCounter (state_after st))
                      (toolName (call st)) (toolArgs (call st))]"
    by blast
next
  fix st
  assume st: "st \<in> set (run_updates lib new_DomState cs)" and n: "outcome st = Returned None"
  from update_threw_or_none(1) [OF run_updates_step [OF st] n]
  show "filter is_write (effects st) = []" by simp
next
  show "diff_numbers (run_updates lib new_DomState cs)
         = [1 ..< Suc (length (diff_numbers (run_updates lib new_DomState cs)))]"
    using diff_numbers_from [OF ok] by (simp add: new_DomState_def)
next
  fix st
  assume st: "st \<in> set (run_updates lib new_DomState cs)"
    and n: "previousDom (state_before st) = None"
  show "\<not> wrote_diff st"
  proof
    assume w: "wrote_diff st"
    from w obtain r where r: "outcome st = Returned (Some r)" "diffPath r \<noteq> None"
      by (auto simp: wrote_diff_def split: outcome.splits option.splits)
    from update_result(2) [OF run_updates_step [OF st] r(1)] r(2) n
    show False by simp
  qed
qed

theorem diff_sequencing_witness:
  "diff_numbers (run_updates plain_library new_DomState five_changes) = [1, 2, 3, 4, 5]
   \<and> map (\<lambda>st. case outcome st of Returned (Some r) \<Rightarrow> diffPath r | _ \<Rightarrow> None)
         (run_updates plain_library new_DomState five_changes)
       = [None,
          Some ''/w/.playwright-mcp/browser-state/diffs/001-click-e1.diff'',
          Some ''/w/.playwright-mcp/browser-state/diffs/002-click-e1.diff'',
          Some ''/w/.playwright-mcp/browser-state/diffs/003-click-e1.diff'',
          Some ''/w/.playwright-mcp/browser-state/diffs/004-click-e1.diff'',
          Some ''/w/.playwright-mcp/browser-state/diffs/005-click-e1.diff'']"
proof -
  have c: "\<forall>a b. str_includes (createPatch plain_library ''dom.html'' a b) ''@@'' = (a \<noteq> b)"
  proof (intro allI)
    fix a b :: string
    have "str_includes ''--- dom.html'' ''@@'' = False" by code_simp
    moreover have "str_includes ''--- dom.html @@ -1 +1 @@'' ''@@'' = True" by code_simp
    ultimately show "str_includes (createPatch plain_library ''dom.html'' a b) ''@@'' = (a \<noteq> b)"
      by (simp add: plain_library_def)
  qed
  have paths: "map (\<lambda>st. case outcome st of Returned (Some r) \<Rightarrow> diffPath r | _ \<Rightarrow> None)
         (run_updates plain_library new_DomState five_changes)
       = [None,
          Some ''/w/.playwright-mcp/browser-state/diffs/001-click-e1.diff'',
          Some ''/w/.playwright-mcp/browser-state/diffs/002-click-e1.diff'',
          Some ''/w/.playwright-mcp/browser-state/diffs/003-click-e1.diff'',
          Some ''/w/.playwright-mcp/browser-state/diffs/004-click-e1.diff'',
          Some ''/w/.playwright-mcp/browser-state/diffs/005-click-e1.diff'']"
    by code_simp
  have ok: "\<forall>st\<in>set (run_updates plain_library new_DomState five_changes). \<not> threw st"
    by code_simp
  have len: "length (diff_numbers (run_updates plain_library new_DomState five_changes)) = 5"
    by code_simp
  from diff_sequencing [OF c ok]
  have "diff_numbers (run_updates plain_library new_DomState five_changes)
          = [1 ..< Suc (length (diff_numbers (run_updates plain_library new_DomState five_changes)))]"
    by blast
  then have "diff_numbers (run_updates plain_library new_DomState five_changes) = [1 ..< 6]"
    by (simp only: len) simp
  also have "[1 ..< 6] = [1, 2, 3, 4, 5::nat]" by code_simp
  finally show ?thesis using paths by simp
qed

text \<open>
  Claim C3 (diff sequencing). \<open>update\<close> increments the counter before it writes the diff
  file and does not take the increment back when the write fails. In a session of three
  captures with changing text, the second call throws on the write of \<open>001-click-e1.diff\<close>:
  the counter stays at 1 and \<open>previousDom\<close> at the first text. The third call succeeds
  and writes \<open>002-click-e1.diff\<close>, so the only diff file of the session is numbered 2.
\<close>

theorem failed_diff_write_leaves_gap:
  "map outcome (run_updates plain_library new_DomState gap_session)
     = [Returned (Some \<lparr>domPath = ''/w/.playwright-mcp/browser-state/dom.html'',
                          ariaPath = ''/w/.playwright-mcp/browser-state/accessibility-tree.yaml'',
                          diffPath = None, diff = None\<rparr>),
        Threw FsError,
        Returned (Some \<lparr>domPath = ''/w/.playwright-mcp/browser-state/dom.html'',
                          ariaPath = ''/w/.playwright-mcp/browser-state/accessibility-tree.yaml'',
                          diffPath = Some ''/w/.playwright-mcp/browser-state/diffs/002-click-e1.diff'',
                          diff = Some ''--- dom.html @@ -1 +1 @@''\<rparr>)]
   \<and> map (\<lambda>st. diffCounter (state_after st)) (run_updates plain_library new_DomState gap_session)
       = [0, 1, 2]
   \<and> map (\<lambda>st. previousDom (state_after st)) (run_updates plain_library new_DomState gap_session)
       = [Some ''<body>v0</body>'', Some ''<body>v0</body>'', Some ''<body>v2</body>'']
   \<and> failing_diff_write
         (WriteFile ''/w/.playwright-mcp/browser-state/diffs/001-click-e1.diff''
            ''--- dom.html @@ -1 +1 @@'')
   \<and> diff_numbers (run_updates plain_library new_DomState gap_session) = [2]"
  by (intro conjI; code_simp)

end
